theory Spec2Isabelle
  imports Main "HOL-Library.AList"
begin

section \<open>Go primitives used by the WeChat notifier\<close>

text \<open>
  Go's \<^verbatim>\<open>int\<close> is a 64-bit two's complement integer on the platforms the manager is built
  for. Cursors and sizes are modelled as \<^typ>\<open>int\<close>; the one place where the source adds two
  of them (\<^verbatim>\<open>*index+size\<close>, \<^verbatim>\<open>*index += size\<close>) wraps around explicitly.
\<close>

definition wrap64 :: "int \<Rightarrow> int" where
  "wrap64 k = (k + 2 ^ 63) mod 2 ^ 64 - 2 ^ 63"

text \<open>
  \<^verbatim>\<open>strings.Split(s, sep)\<close> for a one-character separator: the substrings between the
  separators, so the empty string yields one empty substring.
\<close>

fun Split :: "string \<Rightarrow> char \<Rightarrow> string list" where
  "Split [] sep = [[]]"
| "Split (c # cs) sep =
     (if c = sep then [] # Split cs sep
      else (case Split cs sep of
              [] \<Rightarrow> [[c]]
            | t # ts \<Rightarrow> (c # t) # ts))"

text \<open>\<^verbatim>\<open>strings.TrimPrefix(s, prefix)\<close>.\<close>

definition TrimPrefix :: "string \<Rightarrow> string \<Rightarrow> string" where
  "TrimPrefix s p = (if take (length p) s = p then drop (length p) s else s)"

text \<open>
  A Go computation either panics (a slice bound out of range, a nil pointer dereferenced)
  or returns.
\<close>

datatype 'a go = Panic | Return 'a

text \<open>
  Slice expressions \<^verbatim>\<open>src[lo:]\<close> and \<^verbatim>\<open>src[lo:hi]\<close>. Go panics when the bounds are
  out of range. (The upper bound of \<^verbatim>\<open>src[lo:hi]\<close> is checked against the capacity;
  \<open>batch\<close> only takes this form with \<open>hi \<le> len(src)\<close>, so the length is used.)
\<close>

definition slice_from :: "'a list \<Rightarrow> int \<Rightarrow> 'a list go" where
  "slice_from src lo =
     (if 0 \<le> lo \<and> lo \<le> int (length src) then Return (drop (nat lo) src) else Panic)"

definition slice :: "'a list \<Rightarrow> int \<Rightarrow> int \<Rightarrow> 'a list go" where
  "slice src lo hi =
     (if 0 \<le> lo \<and> lo \<le> hi \<and> hi \<le> int (length src)
      then Return (take (nat hi - nat lo) (drop (nat lo) src)) else Panic)"

section \<open>Constants of \<^verbatim>\<open>wechat.go\<close>\<close>

definition DefaultApiURL :: string where
  "DefaultApiURL = ''https://qyapi.weixin.qq.com/cgi-bin/''"

definition ToUserBatchSize :: int where "ToUserBatchSize = 1000"
definition ToPartyBatchSize :: int where "ToPartyBatchSize = 100"
definition ToTagBatchSize :: int where "ToTagBatchSize = 100"
definition AccessTokenInvalid :: int where "AccessTokenInvalid = 42001"
definition MessageMaxSize :: int where "MessageMaxSize = 2048"

section \<open>\<^verbatim>\<open>batch\<close>\<close>

text \<open>
  \<^verbatim>\<open>func batch(src []string, index *int, size int) string\<close>. The cursor is passed by
  pointer; the model returns the produced string together with the cursor's new value
  (\<open>sz\<close> is the source's \<^verbatim>\<open>size\<close>).
  The loop \<^verbatim>\<open>to += fmt.Sprintf("%s|", t)\<close> is the left fold below.
\<close>

definition batch :: "string list \<Rightarrow> int \<Rightarrow> int \<Rightarrow> (string \<times> int) go" where
  "batch src index sz =
     (if index > int (length src) then Return ([], index)
      else
        (case (if wrap64 (index + sz) > int (length src) then slice_from src index
               else slice src index (wrap64 (index + sz))) of
           Panic \<Rightarrow> Panic
         | Return sub \<Rightarrow>
             Return (foldl (\<lambda>to t. to @ t @ ''|'') [] sub, wrap64 (index + sz))))"

text \<open>The number of recipients a request field carries: every entry written by \<open>batch\<close>
  ends with the separator.\<close>

definition entries :: "string \<Rightarrow> nat" where
  "entries s = count_list s (CHR ''|'')"

section \<open>Configuration objects\<close>

text \<open>
  The declarations of package \<^verbatim>\<open>config\<close> are not among the sources at hand; the records
  list the fields that \<^verbatim>\<open>wechat.go\<close> reads and writes. \<open>WechatConfig\<close> is held by pointer
  (\<open>None\<close> is \<^verbatim>\<open>nil\<close>). Errors are represented by their messages.
\<close>

type_synonym error = string

record WechatConfig =
  APIURL :: string
  AgentID :: string
  CorpID :: string
  APISecret :: string

record Wechat =
  ToUser :: string
  ToParty :: string
  ToTag :: string
  WechatConfig :: "WechatConfig option"
  Namespace :: string

text \<open>
  A \<^verbatim>\<open>config.Receiver\<close> is an interface value: the type assertion
  \<^verbatim>\<open>r.(*config.Wechat)\<close> succeeds on a \<^verbatim>\<open>*config.Wechat\<close>, which may still be nil.
\<close>

datatype Receiver = WechatReceiver "Wechat option" | OtherReceiver

record GlobalOptions =
  TemplateFiles :: "string list"
  GlobalTemplate :: string

record WechatOptions =
  NotificationTimeout :: "int option"
  WechatTemplate :: string
  OptMessageMaxSize :: int
  OptTokenExpires :: int

record Options =
  Global :: "GlobalOptions option"
  WechatOpts :: "WechatOptions option"

record Config =
  ReceiverOpts :: "Options option"

text \<open>
  Modelled from the spec: \<^verbatim>\<open>config.Wechat.Clone\<close> is not among the sources. The spec
  describes the copy that is hashed and that seeds a notifier instance as the normalized
  config with its destination fields cleared; the transport fields are kept.
\<close>

definition Clone :: "Wechat \<Rightarrow> Wechat" where
  "Clone w = \<lparr>ToUser = [], ToParty = [], ToTag = [],
              WechatConfig = WechatConfig w, Namespace = Namespace w\<rparr>"

section \<open>The notifier\<close>

definition Second :: int where "Second = 1000000000"
definition Hour :: int where "Hour = 3600 * Second"
definition DefaultSendTimeout :: int where "DefaultSendTimeout = Second * 3"
definition DefaultTemplate :: string where
  "DefaultTemplate = ''{{ template \"nm.default.text\" . }}''"
definition DefaultExpires :: int where "DefaultExpires = Hour * 2"

text \<open>
  \<^verbatim>\<open>type Notifier struct\<close>. The map \<^verbatim>\<open>wechat\<close> is an association list with distinct keys;
  Go leaves the iteration order of a map open, here it is the order of the list. The
  logger and the token service handle carry no state of their own and are left out; the
  token cache is part of the run state below.
\<close>

record 'tmpl Notifier =
  notifierCfg :: Config
  wechat :: "(string \<times> Wechat) list"
  timeout :: int
  template :: 'tmpl
  templateName :: string
  messageMaxSize :: int
  tokenExpires :: int

subsection \<open>\<^verbatim>\<open>NewWechatNotifier\<close>\<close>

text \<open>The template file path: \<^verbatim>\<open>opts.Global.TemplateFiles\<close> when both pointers are set.\<close>

definition template_path :: "Config \<Rightarrow> string list" where
  "template_path ncfg =
     (case ReceiverOpts ncfg of
        None \<Rightarrow> []
      | Some opts \<Rightarrow> (case Global opts of None \<Rightarrow> [] | Some g \<Rightarrow> TemplateFiles g))"

text \<open>The block \<^verbatim>\<open>if opts != nil && opts.Wechat != nil { ... }\<close>.\<close>

definition apply_options :: "Config \<Rightarrow> 'tmpl Notifier \<Rightarrow> 'tmpl Notifier" where
  "apply_options ncfg n =
     (case ReceiverOpts ncfg of
        None \<Rightarrow> n
      | Some opts \<Rightarrow>
          (case WechatOpts opts of
             None \<Rightarrow> n
           | Some wo \<Rightarrow>
               (let n1 = (case NotificationTimeout wo of
                            None \<Rightarrow> n
                          | Some t \<Rightarrow> n\<lparr>timeout := Second * t\<rparr>);
                    n2 = (if length (WechatTemplate wo) > 0
                          then n1\<lparr>templateName := WechatTemplate wo\<rparr>
                          else (case Global opts of
                                  None \<Rightarrow> n1
                                | Some g \<Rightarrow>
                                    if length (GlobalTemplate g) > 0
                                    then n1\<lparr>templateName := GlobalTemplate g\<rparr> else n1));
                    n3 = (if OptMessageMaxSize wo > 0
                          then n2\<lparr>messageMaxSize := OptMessageMaxSize wo\<rparr> else n2)
                in if OptTokenExpires wo \<noteq> 0
                   then n3\<lparr>tokenExpires := OptTokenExpires wo\<rparr> else n3)))"

text \<open>
  \<^verbatim>\<open>if len(receiver.WechatConfig.APIURL) == 0 { receiver.WechatConfig.APIURL = DefaultApiURL }\<close>.
  The source writes through the receiver's pointer; a later receiver sharing the config
  object finds the URL set and leaves it, so giving each receiver its own copy changes
  nothing.
\<close>

definition default_api_url :: "WechatConfig \<Rightarrow> WechatConfig" where
  "default_api_url cfg =
     (if length (APIURL cfg) = 0 then cfg\<lparr>APIURL := DefaultApiURL\<rparr> else cfg)"

text \<open>
  The body of \<^verbatim>\<open>for _, r := range receivers\<close>. \<open>md5key\<close> stands for \<^verbatim>\<open>notifier.Md5key\<close>,
  which is not among the sources: it is a parameter.
\<close>

definition merge_receiver ::
  "(Wechat \<Rightarrow> error + string) \<Rightarrow> (string \<times> Wechat) list \<Rightarrow> Receiver \<Rightarrow> (string \<times> Wechat) list"
where
  "merge_receiver md5key m r =
     (case r of
        OtherReceiver \<Rightarrow> m
      | WechatReceiver None \<Rightarrow> m
      | WechatReceiver (Some r0) \<Rightarrow>
          (case WechatConfig r0 of
             None \<Rightarrow> m
           | Some cfg \<Rightarrow>
               (let receiver = r0\<lparr>WechatConfig := Some (default_api_url cfg)\<rparr>;
                    c = Clone receiver
                in case md5key c of
                     Inl err \<Rightarrow> m
                   | Inr key \<Rightarrow>
                       (let w0 = (case map_of m key of None \<Rightarrow> c | Some w' \<Rightarrow> w');
                            w1 = (if length (ToUser receiver) > 0
                                  then w0\<lparr>ToUser := ToUser w0 @ ''|'' @ ToUser receiver\<rparr> else w0);
                            w2 = w1\<lparr>ToUser := TrimPrefix (ToUser w1) ''|''\<rparr>;
                            w3 = (if length (ToTag receiver) > 0
                                  then w2\<lparr>ToTag := ToTag w2 @ ''|'' @ ToTag receiver\<rparr> else w2);
                            w4 = w3\<lparr>ToTag := TrimPrefix (ToTag w3) ''|''\<rparr>;
                            w5 = (if length (ToParty receiver) > 0
                                  then w4\<lparr>ToParty := ToParty w4 @ ''|'' @ ToParty receiver\<rparr> else w4);
                            w6 = w5\<lparr>ToParty := TrimPrefix (ToParty w5) ''|''\<rparr>
                        in AList.update key w6 m))))"

text \<open>
  \<open>NewTemplate\<close> stands for \<^verbatim>\<open>notifier.NewTemplate\<close>, a parameter as well. The source
  returns \<^verbatim>\<open>nil\<close> when the template cannot be loaded.
\<close>

definition NewWechatNotifier ::
  "(Wechat \<Rightarrow> error + string) \<Rightarrow> (string list \<Rightarrow> error + 'tmpl) \<Rightarrow>
   Receiver list \<Rightarrow> Config \<Rightarrow> 'tmpl Notifier option"
where
  "NewWechatNotifier md5key NewTemplate receivers ncfg =
     (case NewTemplate (template_path ncfg) of
        Inl err \<Rightarrow> None
      | Inr tmpl \<Rightarrow>
          (let n = \<lparr>notifierCfg = ncfg, wechat = [], timeout = DefaultSendTimeout,
                    template = tmpl, templateName = DefaultTemplate,
                    messageMaxSize = MessageMaxSize, tokenExpires = DefaultExpires\<rparr>;
               n' = apply_options ncfg n
           in Some (n'\<lparr>wechat := foldl (merge_receiver md5key) [] receivers\<rparr>)))"

section \<open>Sending one message to one destination batch\<close>

record weChatMessage =
  Content :: string
  msgToUser :: string
  msgToParty :: string
  Totag :: string
  msgAgentID :: string
  Safe :: string
  msgType :: string

record weChatResponse =
  Code :: int
  Error :: string
  AccessToken :: string

text \<open>
  What the steps of \<^verbatim>\<open>sendMessage\<close> after the token has been acquired run into: the
  first step that fails, with its error, or the decoded response of the channel.
\<close>

datatype PostResult =
    EncodeError error
  | PathError error
  | ParametersError error
  | RequestError error
  | HttpError error
  | DecodeError error
  | Response weChatResponse

text \<open>
  The world outside the notifier: what the \<open>k\<close>-th fetch of a token from the channel
  yields (the HTTP exchange of the closure \<^verbatim>\<open>get\<close> of \<^verbatim>\<open>getToken\<close>), what the \<open>k\<close>-th send
  yields for a given token and message, the clock reading when the caller reaches the
  token cache for the \<open>k\<close>-th time, and the scheduler: how many of the goroutines started
  and not yet run have run by then.
\<close>

record World =
  fetchToken :: "nat \<Rightarrow> Wechat \<Rightarrow> error + string"
  post :: "nat \<Rightarrow> string \<Rightarrow> weChatMessage \<Rightarrow> PostResult"
  now :: "nat \<Rightarrow> int"
  sched :: "nat \<Rightarrow> nat"

text \<open>The observable steps of a run, in the order they happen.\<close>

datatype Event =
    Attempt weChatMessage
  | GotToken string "error + string"
  | Request string weChatMessage
  | InvalidateStarted string
  | Invalidated string

text \<open>
  The state a run works on: the process-wide token cache (a token with the instant it
  expires at), counters of the fetches, sends
  and cache accesses made so far, the goroutines \<^verbatim>\<open>go n.invalidToken(ctx, w)\<close> that were
  started and have not run yet (each with the config of its \<open>w\<close>), and the trace of events.
\<close>

record RunState =
  cache :: "string \<Rightarrow> (string \<times> int) option"
  fetches :: nat
  posts :: nat
  gets :: nat
  pending :: "WechatConfig list"
  trace :: "Event list"

definition log_event :: "Event \<Rightarrow> RunState \<Rightarrow> RunState" where
  "log_event e st = st\<lparr>trace := trace st @ [e]\<rparr>"

text \<open>
  Modelled from the spec: the token service \<^verbatim>\<open>notifier.AccessTokenService\<close> is not among
  the sources. \<open>GetToken\<close> returns the cached token of the key if there is one and it has
  not expired; otherwise it invokes the fetch, and caches its token with its lifetime
  and returns it, or passes its error on and leaves the cache as it is. \<open>InvalidToken\<close>
  removes the entry of the key. (That concurrent callers share one fetch is not visible
  here: a run reaches the cache one access at a time.)
\<close>

definition cached_token :: "RunState \<Rightarrow> string \<Rightarrow> int \<Rightarrow> string option" where
  "cached_token st key t =
     (case cache st key of
        None \<Rightarrow> None
      | Some (token, expires) \<Rightarrow> if t < expires then Some token else None)"

definition GetToken ::
  "string \<Rightarrow> (nat \<Rightarrow> error + string \<times> int) \<Rightarrow> int \<Rightarrow> RunState \<Rightarrow>
   (error + string) \<times> RunState"
where
  "GetToken key fetch t st =
     (case cached_token st key t of
        Some token \<Rightarrow> (Inr token, st)
      | None \<Rightarrow>
          (case fetch (fetches st) of
             Inl err \<Rightarrow> (Inl err, st\<lparr>fetches := Suc (fetches st)\<rparr>)
           | Inr (token, lifetime) \<Rightarrow>
               (Inr token, st\<lparr>fetches := Suc (fetches st),
                                cache := (cache st)(key \<mapsto> (token, t + lifetime))\<rparr>)))"

definition InvalidToken :: "string \<Rightarrow> RunState \<Rightarrow> RunState" where
  "InvalidToken key st = st\<lparr>cache := (cache st)(key := None)\<rparr>"

text \<open>The cache key \<^verbatim>\<open>w.WechatConfig.CorpID + " | " + w.WechatConfig.AgentID\<close>.\<close>

definition token_key :: "WechatConfig \<Rightarrow> string" where
  "token_key cfg = CorpID cfg @ '' | '' @ AgentID cfg"

text \<open>\<^verbatim>\<open>func (n *Notifier) invalidToken\<close>.\<close>

definition invalidToken :: "WechatConfig \<Rightarrow> RunState \<Rightarrow> RunState" where
  "invalidToken cfg st =
     log_event (Invalidated (token_key cfg)) (InvalidToken (token_key cfg) st)"

text \<open>
  A \<^verbatim>\<open>go\<close> statement starts the call and goes on; Go orders nothing between the
  goroutine's run and the statements that follow in the caller. \<open>spawn\<close> records the
  started goroutine; \<open>run_pending k\<close> lets the first \<open>k\<close> of the started goroutines run.
\<close>

definition spawn :: "WechatConfig \<Rightarrow> RunState \<Rightarrow> RunState" where
  "spawn cfg st =
     log_event (InvalidateStarted (token_key cfg)) (st\<lparr>pending := pending st @ [cfg]\<rparr>)"

definition run_pending :: "nat \<Rightarrow> RunState \<Rightarrow> RunState" where
  "run_pending k st =
     foldl (\<lambda>s cfg. invalidToken cfg s) (st\<lparr>pending := drop k (pending st)\<rparr>)
       (take k (pending st))"

text \<open>
  The closure \<^verbatim>\<open>get\<close> of \<^verbatim>\<open>getToken\<close>: the token that the channel hands out, with the
  lifetime \<^verbatim>\<open>DefaultExpires\<close>, or the error of the step that failed.
\<close>

definition get :: "World \<Rightarrow> Wechat \<Rightarrow> nat \<Rightarrow> error + string \<times> int" where
  "get world w k =
     (case fetchToken world k w of
        Inl err \<Rightarrow> Inl err
      | Inr token \<Rightarrow> Inr (token, DefaultExpires))"

text \<open>
  \<^verbatim>\<open>func (n *Notifier) getToken\<close>. The caller reaches the cache here: the scheduler
  says how many of the goroutines started before have run by now.
\<close>

definition getToken ::
  "World \<Rightarrow> Wechat \<Rightarrow> WechatConfig \<Rightarrow> RunState \<Rightarrow> (error + string) \<times> RunState"
where
  "getToken world w cfg st =
     (let st1 = run_pending (sched world (gets st)) st;
          st2 = st1\<lparr>gets := Suc (gets st1)\<rparr>;
          (r, st3) = GetToken (token_key cfg) (get world w) (now world (gets st)) st2
      in (r, log_event (GotToken (token_key cfg) r) st3))"

text \<open>
  The closure \<^verbatim>\<open>sendMessage\<close> of \<^verbatim>\<open>Notify\<close>: it returns the retry flag and the error.
\<close>

definition sendMessage ::
  "World \<Rightarrow> Wechat \<Rightarrow> WechatConfig \<Rightarrow> weChatMessage \<Rightarrow> RunState \<Rightarrow>
   (bool \<times> error option) \<times> RunState"
where
  "sendMessage world w cfg wechatMsg st =
     (case getToken world w cfg (log_event (Attempt wechatMsg) st) of
        (Inl err, st1) \<Rightarrow> ((False, Some err), st1)
      | (Inr accessToken, st1) \<Rightarrow>
          (let st2 = st1\<lparr>posts := Suc (posts st1)\<rparr>;
               st3 = log_event (Request accessToken wechatMsg) st2
           in case post world (posts st1) accessToken wechatMsg of
                EncodeError err \<Rightarrow> ((False, Some err), st2)
              | PathError err \<Rightarrow> ((False, Some err), st2)
              | ParametersError err \<Rightarrow> ((False, Some err), st2)
              | RequestError err \<Rightarrow> ((False, Some err), st2)
              | HttpError err \<Rightarrow> ((False, Some err), st3)
              | DecodeError err \<Rightarrow> ((False, Some err), st3)
              | Response weResp \<Rightarrow>
                  if Code weResp = 0 then ((False, None), st3)
                  else if Code weResp = AccessTokenInvalid
                  then ((True, Some (Error weResp)), spawn cfg st3)
                  else ((False, None), st3)))"

text \<open>
  The message that the closure \<^verbatim>\<open>send\<close> builds from \<open>w\<close> and the text, before its first
  attempt.
\<close>

definition build_message :: "Wechat \<Rightarrow> WechatConfig \<Rightarrow> string \<Rightarrow> weChatMessage" where
  "build_message w cfg msg =
     \<lparr>Content = msg, msgToUser = ToUser w, msgToParty = ToParty w, Totag = ToTag w,
      msgAgentID = AgentID cfg, Safe = ''0'', msgType = ''text''\<rparr>"

text \<open>
  The closure \<^verbatim>\<open>send\<close> of \<^verbatim>\<open>Notify\<close>. Building the message dereferences
  \<^verbatim>\<open>w.WechatConfig\<close>, which panics on nil.
\<close>

definition send ::
  "World \<Rightarrow> Wechat \<Rightarrow> string \<Rightarrow> RunState \<Rightarrow> (error option \<times> RunState) go"
where
  "send world w msg st =
     (case WechatConfig w of
        None \<Rightarrow> Panic
      | Some cfg \<Rightarrow>
          (let wechatMsg = build_message w cfg msg;
               ((retry, err), st1) = sendMessage world w cfg wechatMsg st
           in if retry
              then (let ((retry2, err2), st2) = sendMessage world w cfg wechatMsg st1
                    in Return (err2, st2))
              else Return (err, st1)))"

section \<open>\<^verbatim>\<open>Notify\<close>\<close>

text \<open>
  A DispatchTask is the closure \<^verbatim>\<open>func(stopCh) { stopCh <- send(nw, msg) }\<close>: it holds
  the pointer \<open>nw\<close> and the message. Objects reached by pointer live in a heap.
\<close>

type_synonym addr = nat

record DispatchTask =
  task_nw :: addr
  task_msg :: string

record NotifyState =
  heap :: "addr \<Rightarrow> Wechat option"
  next_addr :: addr
  group :: "DispatchTask list"

text \<open>
  Modelled from the spec: package \<^verbatim>\<open>async\<close> is not among the sources. \<open>Add\<close> registers a
  task with the group; \<open>Wait\<close> returns when every registered task has reported, with the
  errors that are not nil. The tasks are run here in the order of their registration.
\<close>

definition Add :: "DispatchTask \<Rightarrow> NotifyState \<Rightarrow> NotifyState" where
  "Add t s = s\<lparr>group := group s @ [t]\<rparr>"

fun run_tasks ::
  "World \<Rightarrow> (addr \<Rightarrow> Wechat option) \<Rightarrow> DispatchTask list \<Rightarrow> RunState \<Rightarrow>
   (error list \<times> RunState) go"
where
  "run_tasks world h [] st = Return ([], st)"
| "run_tasks world h (t # ts) st =
     (case h (task_nw t) of
        None \<Rightarrow> Panic
      | Some w \<Rightarrow>
          (case send world w (task_msg t) st of
             Panic \<Rightarrow> Panic
           | Return (err, st1) \<Rightarrow>
               (case run_tasks world h ts st1 of
                  Panic \<Rightarrow> Panic
                | Return (errs, st2) \<Rightarrow>
                    Return ((case err of None \<Rightarrow> [] | Some e \<Rightarrow> [e]) @ errs, st2))))"

definition Wait :: "World \<Rightarrow> NotifyState \<Rightarrow> RunState \<Rightarrow> (error list \<times> RunState) go" where
  "Wait world s st = run_tasks world (heap s) (group s) st"

text \<open>An assignment to a field through the pointer \<open>nw\<close>.\<close>

definition store :: "addr \<Rightarrow> (Wechat \<Rightarrow> Wechat) \<Rightarrow> NotifyState \<Rightarrow> NotifyState go" where
  "store a f s =
     (case heap s a of
        None \<Rightarrow> Panic
      | Some obj \<Rightarrow> Return (s\<lparr>heap := (heap s)(a \<mapsto> f obj)\<rparr>))"

text \<open>
  One pass through the body of the batching loop of \<^verbatim>\<open>Notify\<close>, after the exit test:
  the three calls of \<open>batch\<close> with their assignments to \<open>nw\<close>, then one task per message.
  It returns the cursors as the pass leaves them.
\<close>

definition batch_step ::
  "string list \<Rightarrow> string list \<Rightarrow> string list \<Rightarrow> string list \<Rightarrow> addr \<Rightarrow>
   int \<Rightarrow> int \<Rightarrow> int \<Rightarrow> NotifyState \<Rightarrow> (int \<times> int \<times> int \<times> NotifyState) go"
where
  "batch_step toUser toParty toTag messages nw us ps ts s =
     (case batch toUser us ToUserBatchSize of
        Panic \<Rightarrow> Panic
      | Return (u, us') \<Rightarrow>
     (case store nw (\<lambda>obj. obj\<lparr>ToUser := u\<rparr>) s of
        Panic \<Rightarrow> Panic
      | Return s1 \<Rightarrow>
     (case batch toParty ps ToPartyBatchSize of
        Panic \<Rightarrow> Panic
      | Return (p, ps') \<Rightarrow>
     (case store nw (\<lambda>obj. obj\<lparr>ToParty := p\<rparr>) s1 of
        Panic \<Rightarrow> Panic
      | Return s2 \<Rightarrow>
     (case batch toTag ts ToTagBatchSize of
        Panic \<Rightarrow> Panic
      | Return (t, ts') \<Rightarrow>
     (case store nw (\<lambda>obj. obj\<lparr>ToTag := t\<rparr>) s2 of
        Panic \<Rightarrow> Panic
      | Return s3 \<Rightarrow>
          Return (us', ps', ts',
                  foldl (\<lambda>g m. Add \<lparr>task_nw = nw, task_msg = m\<rparr> g) s3 messages)))))))"

text \<open>The loop \<^verbatim>\<open>for { if ... { break } ... }\<close>; it has no bound of its own.\<close>

partial_function (option) batch_loop ::
  "string list \<Rightarrow> string list \<Rightarrow> string list \<Rightarrow> string list \<Rightarrow> addr \<Rightarrow>
   int \<Rightarrow> int \<Rightarrow> int \<Rightarrow> NotifyState \<Rightarrow> NotifyState go option"
where
  [code]: "batch_loop toUser toParty toTag messages nw us ps ts s =
     (if us \<ge> int (length toUser) \<and> ps \<ge> int (length toParty) \<and> ts \<ge> int (length toTag)
      then Some (Return s)
      else (case batch_step toUser toParty toTag messages nw us ps ts s of
              Panic \<Rightarrow> Some Panic
            | Return (us', ps', ts', s') \<Rightarrow>
                batch_loop toUser toParty toTag messages nw us' ps' ts' s'))"

text \<open>The body of \<^verbatim>\<open>for _, w := range n.wechat\<close>: \<open>nw\<close> is allocated by \<^verbatim>\<open>w.Clone()\<close>.\<close>

definition notify_instance :: "string list \<Rightarrow> Wechat \<Rightarrow> NotifyState \<Rightarrow> NotifyState go option" where
  "notify_instance messages w s =
     (let toUser = Split (ToUser w) (CHR ''|'');
          toParty = Split (ToParty w) (CHR ''|'');
          toTag = Split (ToTag w) (CHR ''|'');
          nw = next_addr s;
          s1 = s\<lparr>heap := (heap s)(nw \<mapsto> Clone w), next_addr := Suc nw\<rparr>
      in batch_loop toUser toParty toTag messages nw 0 0 0 s1)"

fun notify_instances ::
  "string list \<Rightarrow> Wechat list \<Rightarrow> NotifyState \<Rightarrow> NotifyState go option"
where
  "notify_instances messages [] s = Some (Return s)"
| "notify_instances messages (w # ws) s =
     (case notify_instance messages w s of
        None \<Rightarrow> None
      | Some Panic \<Rightarrow> Some Panic
      | Some (Return s') \<Rightarrow> notify_instances messages ws s')"

text \<open>
  \<^verbatim>\<open>func (n *Notifier) Notify\<close>. \<open>tsplit\<close> stands for \<^verbatim>\<open>Template.Split\<close>, which is not among
  the sources: it is a parameter, applied to the notifier's template, the data, the size
  bound and the template name. The result is \<open>None\<close> when the call does not return.
\<close>

definition Notify ::
  "('tmpl \<Rightarrow> 'data \<Rightarrow> int \<Rightarrow> string \<Rightarrow> error + string list) \<Rightarrow> World \<Rightarrow>
   'tmpl Notifier \<Rightarrow> 'data \<Rightarrow> RunState \<Rightarrow> (error list \<times> RunState) go option"
where
  "Notify tsplit world n data st =
     (case tsplit (template n) data MessageMaxSize (templateName n) of
        Inl err \<Rightarrow> Some (Return ([], st))
      | Inr messages \<Rightarrow>
          (case notify_instances messages (map snd (wechat n))
                  \<lparr>heap = Map.empty, next_addr = 0, group = []\<rparr> of
             None \<Rightarrow> None
           | Some Panic \<Rightarrow> Some Panic
           | Some (Return s) \<Rightarrow> Some (Wait world s st)))"

section \<open>Reading a run\<close>

text \<open>The number of send attempts in a trace, and the requests that went out.\<close>

fun attempts :: "Event list \<Rightarrow> nat" where
  "attempts [] = 0"
| "attempts (Attempt m # es) = Suc (attempts es)"
| "attempts (e # es) = attempts es"

fun requests :: "Event list \<Rightarrow> weChatMessage list" where
  "requests [] = []"
| "requests (Request token m # es) = m # requests es"
| "requests (e # es) = requests es"

text \<open>
  The attempt made in state \<open>st\<close> is answered by the channel with the token-invalid code.
\<close>

definition signals_expiry :: "World \<Rightarrow> Wechat \<Rightarrow> WechatConfig \<Rightarrow> weChatMessage \<Rightarrow> RunState \<Rightarrow> bool" where
  "signals_expiry world w cfg m st =
     (case getToken world w cfg (log_event (Attempt m) st) of
        (Inl err, st1) \<Rightarrow> False
      | (Inr accessToken, st1) \<Rightarrow>
          (case post world (posts st1) accessToken m of
             Response weResp \<Rightarrow> Code weResp = AccessTokenInvalid
           | _ \<Rightarrow> False))"

text \<open>
  The destinations that a destination field names: \<open>Notify\<close> reads a field with
  \<^verbatim>\<open>strings.Split(field, "|")\<close>; a destination is a non-empty entry.
\<close>

definition destinations :: "string \<Rightarrow> string list" where
  "destinations field = filter (\<lambda>d. d \<noteq> []) (Split field (CHR ''|''))"

text \<open>
  What \<open>batch\<close> computes for a cursor that is not negative, as long as cursor plus size stay
  in the range of \<^verbatim>\<open>int\<close> (lemma \<open>batch_eq\<close> below): the cursor moves on by the size unless
  it is already past the list, and the string holds the next \<open>size\<close> entries.
\<close>

definition advance :: "string list \<Rightarrow> int \<Rightarrow> int \<Rightarrow> int" where
  "advance src index sz = (if index \<le> int (length src) then index + sz else index)"

definition batch_text :: "string list \<Rightarrow> int \<Rightarrow> int \<Rightarrow> string" where
  "batch_text src index sz =
     (if index \<le> int (length src)
      then foldl (\<lambda>to t. to @ t @ ''|'') [] (take (nat sz) (drop (nat index) src)) else [])"

text \<open>The variant of the batching loop: how far the cursors are from passing their lists.\<close>

definition remaining ::
  "string list \<Rightarrow> string list \<Rightarrow> string list \<Rightarrow> int \<Rightarrow> int \<Rightarrow> int \<Rightarrow> nat" where
  "remaining toUser toParty toTag us ps ts =
     nat (int (length toUser) + 1 - us) + nat (int (length toParty) + 1 - ps)
       + nat (int (length toTag) + 1 - ts)"

text \<open>
  The transport identity of a receiver: what \<open>merge_receiver\<close> hashes, the clone of the
  receiver with the default URL filled in.
\<close>

definition transport_identity :: "Wechat \<Rightarrow> Wechat option" where
  "transport_identity r =
     (case WechatConfig r of
        None \<Rightarrow> None
      | Some cfg \<Rightarrow> Some (Clone (r\<lparr>WechatConfig := Some (default_api_url cfg)\<rparr>)))"

text \<open>
  The value a destination field takes when a receiver is merged into an instance: the
  two statements \<^verbatim>\<open>if len(new) > 0 { old += "|" + new }\<close> and
  \<^verbatim>\<open>old = strings.TrimPrefix(old, "|")\<close> of \<open>merge_receiver\<close>.
\<close>

definition merged :: "string \<Rightarrow> string \<Rightarrow> string" where
  "merged old new = TrimPrefix (if length new > 0 then old @ ''|'' @ new else old) ''|''"

text \<open>
  The recipient caps of the channel, on a request, on an instance object and on every
  object of a heap.
\<close>

definition within_caps :: "weChatMessage \<Rightarrow> bool" where
  "within_caps m =
     (int (entries (msgToUser m)) \<le> ToUserBatchSize \<and>
      int (entries (msgToParty m)) \<le> ToPartyBatchSize \<and>
      int (entries (Totag m)) \<le> ToTagBatchSize)"

definition object_within_caps :: "Wechat \<Rightarrow> bool" where
  "object_within_caps obj =
     (int (entries (ToUser obj)) \<le> ToUserBatchSize \<and>
      int (entries (ToParty obj)) \<le> ToPartyBatchSize \<and>
      int (entries (ToTag obj)) \<le> ToTagBatchSize)"

definition heap_within_caps :: "(addr \<Rightarrow> Wechat option) \<Rightarrow> bool" where
  "heap_within_caps h = (\<forall>a obj. h a = Some obj \<longrightarrow> object_within_caps obj)"

text \<open>
  The destination lists of an instance are such as a Go slice can hold: for each, length
  plus batch size stays in the range of \<^verbatim>\<open>int\<close>.
\<close>

definition lists_in_range :: "Wechat \<Rightarrow> bool" where
  "lists_in_range w =
     (int (length (Split (ToUser w) (CHR ''|''))) + ToUserBatchSize < 2 ^ 63 \<and>
      int (length (Split (ToParty w) (CHR ''|''))) + ToPartyBatchSize < 2 ^ 63 \<and>
      int (length (Split (ToTag w) (CHR ''|''))) + ToTagBatchSize < 2 ^ 63)"

text \<open>
  The request that a task sends when \<open>Wait\<close> runs it on the heap \<open>h\<close>: \<open>run_tasks\<close> reads
  the object behind the task's pointer and \<open>send\<close> builds the message from it.
\<close>

definition task_request :: "(addr \<Rightarrow> Wechat option) \<Rightarrow> DispatchTask \<Rightarrow> weChatMessage option" where
  "task_request h t =
     (case h (task_nw t) of
        None \<Rightarrow> None
      | Some w \<Rightarrow>
          (case WechatConfig w of
             None \<Rightarrow> None
           | Some cfg \<Rightarrow> Some (build_message w cfg (task_msg t))))"

text \<open>
  In the object \<open>obj\<close>, the field of every kind whose list is exhausted at the cursors
  \<open>us\<close>, \<open>ps\<close>, \<open>ts\<close> is empty.
\<close>

definition exhausted_empty ::
  "string list \<Rightarrow> string list \<Rightarrow> string list \<Rightarrow> int \<Rightarrow> int \<Rightarrow> int \<Rightarrow> Wechat \<Rightarrow> bool" where
  "exhausted_empty toUser toParty toTag us ps ts obj =
     ((int (length toUser) \<le> us \<longrightarrow> ToUser obj = []) \<and>
      (int (length toParty) \<le> ps \<longrightarrow> ToParty obj = []) \<and>
      (int (length toTag) \<le> ts \<longrightarrow> ToTag obj = []))"

section \<open>Concrete runs\<close>

definition example_config :: WechatConfig where
  "example_config =
     \<lparr>APIURL = DefaultApiURL, AgentID = ''1000002'', CorpID = ''corp'', APISecret = ''secret''\<rparr>"

definition example_instance :: "string \<Rightarrow> string \<Rightarrow> string \<Rightarrow> Wechat" where
  "example_instance u p t =
     \<lparr>ToUser = u, ToParty = p, ToTag = t, WechatConfig = Some example_config,
      Namespace = ''monitoring''\<rparr>"

definition example_notifier :: "(string \<times> Wechat) list \<Rightarrow> unit Notifier" where
  "example_notifier m =
     \<lparr>notifierCfg = \<lparr>ReceiverOpts = None\<rparr>, wechat = m, timeout = DefaultSendTimeout,
      template = (), templateName = DefaultTemplate, messageMaxSize = MessageMaxSize,
      tokenExpires = DefaultExpires\<rparr>"

definition initial_state :: RunState where
  "initial_state =
     \<lparr>cache = Map.empty, fetches = 0, posts = 0, gets = 0, pending = [], trace = []\<rparr>"

text \<open>A template whose rendering of the data is one chunk, and one that fails.\<close>

definition one_chunk :: "unit \<Rightarrow> unit \<Rightarrow> int \<Rightarrow> string \<Rightarrow> error + string list" where
  "one_chunk tmpl d bound name = Inr [''alert'']"

definition failing_split :: "unit \<Rightarrow> unit \<Rightarrow> int \<Rightarrow> string \<Rightarrow> error + string list" where
  "failing_split tmpl d bound name = Inl ''template: no template \"nm.default.text\"''"

text \<open>A splitter that writes the bound it was given into its one chunk.\<close>

definition bound_reporting_split :: "unit \<Rightarrow> unit \<Rightarrow> int \<Rightarrow> string \<Rightarrow> error + string list" where
  "bound_reporting_split tmpl d bound name =
     Inr [if bound = 2048 then ''bound 2048''
          else if bound = 4096 then ''bound 4096'' else ''another bound'']"

text \<open>
  A channel that answers every send with the same code and error text; the clock stands
  at 0 and no started goroutine has run when the caller reaches the cache.
\<close>

definition world_answering :: "int \<Rightarrow> string \<Rightarrow> World" where
  "world_answering c e =
     \<lparr>fetchToken = (\<lambda>k w. Inr ''T''),
      post = (\<lambda>k token m. Response \<lparr>Code = c, Error = e, AccessToken = []\<rparr>),
      now = (\<lambda>k. 0),
      sched = (\<lambda>k. 0)\<rparr>"

text \<open>
  A channel that hands out the token \<open>T0\<close> first and \<open>T1\<close> afterwards, rejects \<open>T0\<close> as
  invalid and accepts any other token; the clock stands at 0, and \<open>run_early\<close> says
  whether a started goroutine has run whenever the caller reaches the cache.
\<close>

definition world_expiring :: "bool \<Rightarrow> World" where
  "world_expiring run_early =
     \<lparr>fetchToken = (\<lambda>k w. Inr (if k = 0 then ''T0'' else ''T1'')),
      post = (\<lambda>k token m.
                if token = ''T0''
                then Response \<lparr>Code = 42001, Error = ''access_token expired'', AccessToken = []\<rparr>
                else Response \<lparr>Code = 0, Error = ''ok'', AccessToken = []\<rparr>),
      now = (\<lambda>k. 0),
      sched = (\<lambda>k. if run_early then 1 else 0)\<rparr>"

text \<open>The error list and the requests of a call of \<open>Notify\<close>.\<close>

definition errors_and_requests ::
  "(error list \<times> RunState) go option \<Rightarrow> (error list \<times> weChatMessage list) go option" where
  "errors_and_requests r = map_option (map_go (\<lambda>(errs, st). (errs, requests (trace st)))) r"

text \<open>Receiver options that set the maximal message size to 4096.\<close>

definition options_with_max_size :: Config where
  "options_with_max_size =
     \<lparr>ReceiverOpts = Some \<lparr>Global = None,
        WechatOpts = Some \<lparr>NotificationTimeout = None, WechatTemplate = [],
                            OptMessageMaxSize = 4096, OptTokenExpires = 0\<rparr>\<rparr>\<rparr>"

text \<open>A heap that holds one object, at address 0.\<close>

definition single_object :: "Wechat \<Rightarrow> NotifyState" where
  "single_object obj = \<lparr>heap = [0 \<mapsto> obj], next_addr = 1, group = []\<rparr>"

text \<open>The cursors that a pass of the loop body leaves.\<close>

definition cursors :: "(int \<times> int \<times> int \<times> NotifyState) go \<Rightarrow> (int \<times> int \<times> int) go" where
  "cursors r = map_go (\<lambda>(us, ps, ts, s). (us, ps, ts)) r"

section \<open>Facts about the primitives\<close>

lemma wrap64_le: "- (2 ^ 63) \<le> k \<Longrightarrow> wrap64 k \<le> k"
proof -
  assume a: "- (2 ^ 63) \<le> k"
  have "(k + 2 ^ 63) mod 2 ^ 64 \<le> k + 2 ^ 63"
    by (rule zmod_le_nonneg_dividend) (use a in simp)
  then show ?thesis by (simp add: wrap64_def)
qed

lemma wrap64_id: "- (2 ^ 63) \<le> k \<Longrightarrow> k < 2 ^ 63 \<Longrightarrow> wrap64 k = k"
  by (simp add: wrap64_def)

lemma entries_append: "entries (xs @ ys) = entries xs + entries ys"
  by (induction xs) (simp_all add: entries_def)

lemma entries_free: "CHR ''|'' \<notin> set t \<Longrightarrow> entries t = 0"
  by (simp add: entries_def)

lemma entries_foldl:
  "\<forall>t\<in>set sub. CHR ''|'' \<notin> set t \<Longrightarrow>
   entries (foldl (\<lambda>to t. to @ t @ ''|'') acc sub) = entries acc + length sub"
proof (induction sub arbitrary: acc)
  case Nil
  then show ?case by simp
next
  case (Cons t sub)
  then show ?case by (simp add: entries_append entries_free) (simp add: entries_def)
qed

lemma Split_free: "\<forall>t\<in>set (Split s c). c \<notin> set t"
  by (induction s) (auto split: list.splits)

lemma Split_nonempty: "Split s c \<noteq> []"
  by (induction s) (auto split: list.splits)

section \<open>The batching loop\<close>

lemma batch_past: "int (length src) < index \<Longrightarrow> batch src index sz = Return ([], index)"
  by (simp add: batch_def)

lemma batch_within:
  assumes "0 \<le> index" "index \<le> int (length src)" "0 \<le> sz" "index + sz < 2 ^ 63"
  shows "batch src index sz =
           Return (foldl (\<lambda>to t. to @ t @ ''|'') [] (take (nat sz) (drop (nat index) src)),
                   index + sz)"
proof -
  have w: "wrap64 (index + sz) = index + sz"
    by (rule wrap64_id) (use assms in auto)
  show ?thesis
  proof (cases "index + sz > int (length src)")
    case True
    then have "take (nat sz) (drop (nat index) src) = drop (nat index) src"
      using assms by (intro take_all) simp
    with True assms w show ?thesis by (simp add: batch_def slice_from_def)
  next
    case False
    have "nat (index + sz) - nat index = nat sz" using assms by simp
    with False assms w show ?thesis by (simp add: batch_def slice_def)
  qed
qed

lemma batch_exhausted:
  assumes "int (length src) \<le> index" "0 \<le> sz" "index + sz < 2 ^ 63"
  shows "\<exists>index'. batch src index sz = Return ([], index')"
proof (cases "int (length src) < index")
  case True
  then show ?thesis by (simp add: batch_past)
next
  case False
  with assms have "index = int (length src)" by simp
  with assms show ?thesis by (simp add: batch_within)
qed

lemma store_allocated:
  "heap s a = Some obj \<Longrightarrow> store a f s = Return (s\<lparr>heap := (heap s)(a \<mapsto> f obj)\<rparr>)"
  by (simp add: store_def)

lemma foldl_Add:
  "foldl (\<lambda>g m. Add (T m) g) s ms = s\<lparr>group := group s @ map T ms\<rparr>"
  by (induction ms arbitrary: s) (simp_all add: Add_def)

lemma batch_eq:
  assumes "0 \<le> index" "0 \<le> sz" "int (length src) + sz < 2 ^ 63"
  shows "batch src index sz = Return (batch_text src index sz, advance src index sz)"
proof (cases "index \<le> int (length src)")
  case True
  with assms have "index + sz < 2 ^ 63" by simp
  with True assms show ?thesis by (simp add: batch_within batch_text_def advance_def)
next
  case False
  then show ?thesis by (simp add: batch_past batch_text_def advance_def)
qed

lemma batch_step_eq:
  assumes h: "heap s nw = Some obj"
    and c: "0 \<le> us" "0 \<le> ps" "0 \<le> ts"
    and b: "int (length toUser) + ToUserBatchSize < 2 ^ 63"
           "int (length toParty) + ToPartyBatchSize < 2 ^ 63"
           "int (length toTag) + ToTagBatchSize < 2 ^ 63"
  shows "batch_step toUser toParty toTag messages nw us ps ts s =
     Return (advance toUser us ToUserBatchSize, advance toParty ps ToPartyBatchSize,
             advance toTag ts ToTagBatchSize,
             s\<lparr>heap := (heap s)(nw \<mapsto> obj\<lparr>ToUser := batch_text toUser us ToUserBatchSize,
                                          ToParty := batch_text toParty ps ToPartyBatchSize,
                                          ToTag := batch_text toTag ts ToTagBatchSize\<rparr>),
               group := group s @ map (\<lambda>m. \<lparr>task_nw = nw, task_msg = m\<rparr>) messages\<rparr>)"
proof -
  have u: "batch toUser us ToUserBatchSize =
        Return (batch_text toUser us ToUserBatchSize, advance toUser us ToUserBatchSize)"
    by (rule batch_eq) (use c b in \<open>simp_all add: ToUserBatchSize_def\<close>)
  have p: "batch toParty ps ToPartyBatchSize =
        Return (batch_text toParty ps ToPartyBatchSize, advance toParty ps ToPartyBatchSize)"
    by (rule batch_eq) (use c b in \<open>simp_all add: ToPartyBatchSize_def\<close>)
  have t: "batch toTag ts ToTagBatchSize =
        Return (batch_text toTag ts ToTagBatchSize, advance toTag ts ToTagBatchSize)"
    by (rule batch_eq) (use c b in \<open>simp_all add: ToTagBatchSize_def\<close>)
  show ?thesis
    unfolding batch_step_def u p t
    by (simp add: store_def h foldl_Add)
qed

lemma advance_nonneg: "0 \<le> index \<Longrightarrow> 0 \<le> sz \<Longrightarrow> 0 \<le> advance src index sz"
  by (simp add: advance_def)

lemma advance_measure_le:
  "0 \<le> sz \<Longrightarrow> nat (int (length src) + 1 - advance src index sz) \<le> nat (int (length src) + 1 - index)"
  by (auto simp: advance_def intro!: nat_mono)

lemma advance_measure_less:
  "0 < sz \<Longrightarrow> index < int (length src) \<Longrightarrow>
   nat (int (length src) + 1 - advance src index sz) < nat (int (length src) + 1 - index)"
  by (auto simp: advance_def)

lemma remaining_decreases:
  assumes "\<not> (us \<ge> int (length toUser) \<and> ps \<ge> int (length toParty) \<and> ts \<ge> int (length toTag))"
  shows "remaining toUser toParty toTag (advance toUser us ToUserBatchSize)
           (advance toParty ps ToPartyBatchSize) (advance toTag ts ToTagBatchSize)
         < remaining toUser toParty toTag us ps ts"
proof -
  have u: "nat (int (length toUser) + 1 - advance toUser us ToUserBatchSize)
             \<le> nat (int (length toUser) + 1 - us)"
    by (rule advance_measure_le) (simp add: ToUserBatchSize_def)
  have p: "nat (int (length toParty) + 1 - advance toParty ps ToPartyBatchSize)
             \<le> nat (int (length toParty) + 1 - ps)"
    by (rule advance_measure_le) (simp add: ToPartyBatchSize_def)
  have t: "nat (int (length toTag) + 1 - advance toTag ts ToTagBatchSize)
             \<le> nat (int (length toTag) + 1 - ts)"
    by (rule advance_measure_le) (simp add: ToTagBatchSize_def)
  consider "us < int (length toUser)" | "ps < int (length toParty)" | "ts < int (length toTag)"
    using assms by linarith
  then show ?thesis
  proof cases
    case 1
    have "nat (int (length toUser) + 1 - advance toUser us ToUserBatchSize)
             < nat (int (length toUser) + 1 - us)"
      by (rule advance_measure_less) (use 1 in \<open>simp_all add: ToUserBatchSize_def\<close>)
    with p t show ?thesis unfolding remaining_def by linarith
  next
    case 2
    have "nat (int (length toParty) + 1 - advance toParty ps ToPartyBatchSize)
             < nat (int (length toParty) + 1 - ps)"
      by (rule advance_measure_less) (use 2 in \<open>simp_all add: ToPartyBatchSize_def\<close>)
    with u t show ?thesis unfolding remaining_def by linarith
  next
    case 3
    have "nat (int (length toTag) + 1 - advance toTag ts ToTagBatchSize)
             < nat (int (length toTag) + 1 - ts)"
      by (rule advance_measure_less) (use 3 in \<open>simp_all add: ToTagBatchSize_def\<close>)
    with u p show ?thesis unfolding remaining_def by linarith
  qed
qed

lemma batch_loop_returns:
  assumes b: "int (length toUser) + ToUserBatchSize < 2 ^ 63"
             "int (length toParty) + ToPartyBatchSize < 2 ^ 63"
             "int (length toTag) + ToTagBatchSize < 2 ^ 63"
  shows "heap s nw = Some obj \<Longrightarrow> 0 \<le> us \<Longrightarrow> 0 \<le> ps \<Longrightarrow> 0 \<le> ts \<Longrightarrow>
         \<exists>s'. batch_loop toUser toParty toTag messages nw us ps ts s = Some (Return s')"
proof (induction "remaining toUser toParty toTag us ps ts" arbitrary: us ps ts s obj rule: less_induct)
  case less
  show ?case
  proof (cases "us \<ge> int (length toUser) \<and> ps \<ge> int (length toParty) \<and> ts \<ge> int (length toTag)")
    case True
    then show ?thesis by (subst batch_loop.simps) simp
  next
    case False
    let ?us = "advance toUser us ToUserBatchSize"
    let ?ps = "advance toParty ps ToPartyBatchSize"
    let ?ts = "advance toTag ts ToTagBatchSize"
    let ?obj = "obj\<lparr>ToUser := batch_text toUser us ToUserBatchSize,
                     ToParty := batch_text toParty ps ToPartyBatchSize,
                     ToTag := batch_text toTag ts ToTagBatchSize\<rparr>"
    let ?s = "s\<lparr>heap := (heap s)(nw \<mapsto> ?obj),
                group := group s @ map (\<lambda>m. \<lparr>task_nw = nw, task_msg = m\<rparr>) messages\<rparr>"
    have step: "batch_step toUser toParty toTag messages nw us ps ts s = Return (?us, ?ps, ?ts, ?s)"
      using less.prems b by (rule batch_step_eq)
    have dec: "remaining toUser toParty toTag ?us ?ps ?ts < remaining toUser toParty toTag us ps ts"
      using False by (rule remaining_decreases)
    have h: "heap ?s nw = Some ?obj" by simp
    have "\<exists>s'. batch_loop toUser toParty toTag messages nw ?us ?ps ?ts ?s = Some (Return s')"
      using dec h
    proof (rule less.hyps)
      show "0 \<le> ?us" using less.prems by (simp add: advance_nonneg ToUserBatchSize_def)
      show "0 \<le> ?ps" using less.prems by (simp add: advance_nonneg ToPartyBatchSize_def)
      show "0 \<le> ?ts" using less.prems by (simp add: advance_nonneg ToTagBatchSize_def)
    qed
    then obtain s' where
      "batch_loop toUser toParty toTag messages nw ?us ?ps ?ts ?s = Some (Return s')" ..
    moreover have "batch_loop toUser toParty toTag messages nw us ps ts s =
        (case batch_step toUser toParty toTag messages nw us ps ts s of
           Panic \<Rightarrow> Some Panic
         | Return (us', ps', ts', s') \<Rightarrow>
             batch_loop toUser toParty toTag messages nw us' ps' ts' s')"
      by (subst batch_loop.simps) (rule if_not_P [OF False])
    ultimately have
      "batch_loop toUser toParty toTag messages nw us ps ts s = Some (Return s')"
      by (simp add: step)
    then show ?thesis ..
  qed
qed

lemma batch_text_exhausted: "int (length src) \<le> index \<Longrightarrow> batch_text src index sz = []"
  by (simp add: batch_text_def)

section \<open>The cursors of the batching loop\<close>

lemma advance_ge: "0 \<le> sz \<Longrightarrow> index \<le> advance src index sz"
  by (simp add: advance_def)

lemma batch_loop_unfold_pass:
  assumes "\<not> (int (length toUser) \<le> us \<and> int (length toParty) \<le> ps \<and> int (length toTag) \<le> ts)"
    and "batch_step toUser toParty toTag messages nw us ps ts s = Return (us', ps', ts', s1)"
  shows "batch_loop toUser toParty toTag messages nw us ps ts s =
           batch_loop toUser toParty toTag messages nw us' ps' ts' s1"
proof -
  have "batch_loop toUser toParty toTag messages nw us ps ts s =
        (case batch_step toUser toParty toTag messages nw us ps ts s of
           Panic \<Rightarrow> Some Panic
         | Return (us', ps', ts', s') \<Rightarrow>
             batch_loop toUser toParty toTag messages nw us' ps' ts' s')"
    by (subst batch_loop.simps) (rule if_not_P [OF assms(1)])
  then show ?thesis by (simp add: assms(2))
qed

lemma batch_loop_exit:
  assumes "int (length toUser) \<le> us \<and> int (length toParty) \<le> ps \<and> int (length toTag) \<le> ts"
  shows "batch_loop toUser toParty toTag messages nw us ps ts s = Some (Return s)"
  by (subst batch_loop.simps) (simp add: assms)

lemma batch_loop_result:
  assumes b: "int (length toUser) + ToUserBatchSize < 2 ^ 63"
             "int (length toParty) + ToPartyBatchSize < 2 ^ 63"
             "int (length toTag) + ToTagBatchSize < 2 ^ 63"
  shows "heap s nw = Some obj \<Longrightarrow> 0 \<le> us \<Longrightarrow> 0 \<le> ps \<Longrightarrow> 0 \<le> ts \<Longrightarrow>
         us0 \<le> us \<Longrightarrow> ps0 \<le> ps \<Longrightarrow> ts0 \<le> ts \<Longrightarrow>
         exhausted_empty toUser toParty toTag us0 ps0 ts0 obj \<Longrightarrow>
         \<exists>s' obj' tasks.
            batch_loop toUser toParty toTag messages nw us ps ts s = Some (Return s')
          \<and> group s' = group s @ tasks \<and> (\<forall>t\<in>set tasks. task_nw t = nw)
          \<and> heap s' nw = Some obj' \<and> WechatConfig obj' = WechatConfig obj
          \<and> exhausted_empty toUser toParty toTag us0 ps0 ts0 obj'"
proof (induction "remaining toUser toParty toTag us ps ts" arbitrary: us ps ts s obj rule: less_induct)
  case less
  show ?case
  proof (cases "int (length toUser) \<le> us \<and> int (length toParty) \<le> ps \<and> int (length toTag) \<le> ts")
    case True
    have "batch_loop toUser toParty toTag messages nw us ps ts s = Some (Return s)
        \<and> group s = group s @ [] \<and> (\<forall>t\<in>set []. task_nw t = nw)
        \<and> heap s nw = Some obj \<and> WechatConfig obj = WechatConfig obj
        \<and> exhausted_empty toUser toParty toTag us0 ps0 ts0 obj"
      using True less.prems by (simp add: batch_loop_exit)
    then show ?thesis by blast
  next
    case False
    let ?us = "advance toUser us ToUserBatchSize"
    let ?ps = "advance toParty ps ToPartyBatchSize"
    let ?ts = "advance toTag ts ToTagBatchSize"
    let ?obj = "obj\<lparr>ToUser := batch_text toUser us ToUserBatchSize,
                     ToParty := batch_text toParty ps ToPartyBatchSize,
                     ToTag := batch_text toTag ts ToTagBatchSize\<rparr>"
    let ?new = "map (\<lambda>m. \<lparr>task_nw = nw, task_msg = m\<rparr>) messages"
    let ?s = "s\<lparr>heap := (heap s)(nw \<mapsto> ?obj), group := group s @ ?new\<rparr>"
    have step: "batch_step toUser toParty toTag messages nw us ps ts s = Return (?us, ?ps, ?ts, ?s)"
      using less.prems(1-4) b by (rule batch_step_eq)
    have dec: "remaining toUser toParty toTag ?us ?ps ?ts < remaining toUser toParty toTag us ps ts"
      using False by (rule remaining_decreases)
    have h: "heap ?s nw = Some ?obj" by simp
    have ge: "us \<le> ?us" "ps \<le> ?ps" "ts \<le> ?ts"
      by (simp_all add: advance_ge ToUserBatchSize_def ToPartyBatchSize_def ToTagBatchSize_def)
    have e: "exhausted_empty toUser toParty toTag us0 ps0 ts0 ?obj"
      using less.prems(5-7) by (simp add: exhausted_empty_def batch_text_exhausted)
    have "\<exists>s' obj' tasks.
            batch_loop toUser toParty toTag messages nw ?us ?ps ?ts ?s = Some (Return s')
          \<and> group s' = group ?s @ tasks \<and> (\<forall>t\<in>set tasks. task_nw t = nw)
          \<and> heap s' nw = Some obj' \<and> WechatConfig obj' = WechatConfig ?obj
          \<and> exhausted_empty toUser toParty toTag us0 ps0 ts0 obj'"
      using dec h
    proof (rule less.hyps)
      show "0 \<le> ?us" "0 \<le> ?ps" "0 \<le> ?ts" using less.prems(2-4) ge by linarith+
      show "us0 \<le> ?us" "ps0 \<le> ?ps" "ts0 \<le> ?ts" using less.prems(5-7) ge by linarith+
      show "exhausted_empty toUser toParty toTag us0 ps0 ts0 ?obj" by (rule e)
    qed
    then obtain s' obj' tasks where
      r: "batch_loop toUser toParty toTag messages nw ?us ?ps ?ts ?s = Some (Return s')" and
      g: "group s' = group ?s @ tasks" and t: "\<forall>t\<in>set tasks. task_nw t = nw" and
      h': "heap s' nw = Some obj'" and c: "WechatConfig obj' = WechatConfig ?obj" and
      e': "exhausted_empty toUser toParty toTag us0 ps0 ts0 obj'"
      by blast
    have "batch_loop toUser toParty toTag messages nw us ps ts s = Some (Return s')"
      using batch_loop_unfold_pass [OF False step] r by simp
    moreover have "group s' = group s @ (?new @ tasks)" using g by simp
    moreover have "\<forall>t\<in>set (?new @ tasks). task_nw t = nw" using t by auto
    moreover have "WechatConfig obj' = WechatConfig obj" using c by simp
    ultimately show ?thesis using h' e' by blast
  qed
qed

text \<open>
  C9, as stated: each of the three cursors advances by its batch size once per
  iteration. With one user, one party and 101 tags the first pass takes the cursors from
  (0, 0, 0) to (1000, 100, 100); the second pass leaves the user and the party cursor
  where they are, since each is past its list, and takes them to (1000, 100, 200), not
  to (2000, 200, 200).
\<close>

theorem batch_step_cursor_counterexample:
  "cursors (batch_step [''u''] [''p''] (replicate 101 ''t'') [''alert''] 0 0 0 0
              (single_object (Clone (example_instance ''u'' ''p'' []))))
     = Return (1000, 100, 100)
   \<and> cursors (batch_step [''u''] [''p''] (replicate 101 ''t'') [''alert''] 0 1000 100 100
              (single_object (Clone (example_instance ''u'' ''p'' []))))
     = Return (1000, 100, 200)"
  by code_simp

text \<open>
  C9, amended: in the batching loop of \<open>Notify\<close> every pass calls \<open>batch\<close> for all three
  kinds; a cursor at or below the length of its list advances by its batch size, a
  cursor already past its list is left where it is (\<open>advance\<close>). When one list kind is
  exhausted before the others, subsequent iterations are not skipped: as long as one
  cursor is short of its list the loop does not exit but makes the pass, which creates one
  DispatchTask per message; the requests of these tasks, and of those of all later
  passes, have the recipient field of every kind that was exhausted at the start of the
  pass empty. (Cursors start at 0 and never become negative; the instance has its
  config; length plus batch size stays in the range of \<^verbatim>\<open>int\<close>.)
\<close>

theorem batch_loop_exhausted_kind_not_skipped:
  assumes h: "heap s nw = Some obj" and cfg: "WechatConfig obj = Some cfg"
    and c: "0 \<le> us" "0 \<le> ps" "0 \<le> ts"
    and b: "int (length toUser) + ToUserBatchSize < 2 ^ 63"
           "int (length toParty) + ToPartyBatchSize < 2 ^ 63"
           "int (length toTag) + ToTagBatchSize < 2 ^ 63"
    and more: "\<not> (int (length toUser) \<le> us \<and> int (length toParty) \<le> ps
                   \<and> int (length toTag) \<le> ts)"
  shows "\<exists>s1 s' later.
      batch_step toUser toParty toTag messages nw us ps ts s =
        Return (advance toUser us ToUserBatchSize, advance toParty ps ToPartyBatchSize,
                advance toTag ts ToTagBatchSize, s1)
    \<and> batch_loop toUser toParty toTag messages nw us ps ts s =
        batch_loop toUser toParty toTag messages nw (advance toUser us ToUserBatchSize)
          (advance toParty ps ToPartyBatchSize) (advance toTag ts ToTagBatchSize) s1
    \<and> batch_loop toUser toParty toTag messages nw us ps ts s = Some (Return s')
    \<and> group s' = group s @ map (\<lambda>m. \<lparr>task_nw = nw, task_msg = m\<rparr>) messages @ later
    \<and> (\<forall>t\<in>set (map (\<lambda>m. \<lparr>task_nw = nw, task_msg = m\<rparr>) messages @ later).
          \<exists>m. task_request (heap s') t = Some m
            \<and> (int (length toUser) \<le> us \<longrightarrow> msgToUser m = [])
            \<and> (int (length toParty) \<le> ps \<longrightarrow> msgToParty m = [])
            \<and> (int (length toTag) \<le> ts \<longrightarrow> Totag m = []))"
proof -
  let ?us = "advance toUser us ToUserBatchSize"
  let ?ps = "advance toParty ps ToPartyBatchSize"
  let ?ts = "advance toTag ts ToTagBatchSize"
  let ?obj = "obj\<lparr>ToUser := batch_text toUser us ToUserBatchSize,
                   ToParty := batch_text toParty ps ToPartyBatchSize,
                   ToTag := batch_text toTag ts ToTagBatchSize\<rparr>"
  let ?new = "map (\<lambda>m. \<lparr>task_nw = nw, task_msg = m\<rparr>) messages"
  let ?s = "s\<lparr>heap := (heap s)(nw \<mapsto> ?obj), group := group s @ ?new\<rparr>"
  have step: "batch_step toUser toParty toTag messages nw us ps ts s = Return (?us, ?ps, ?ts, ?s)"
    using h c b by (rule batch_step_eq)
  have unfold: "batch_loop toUser toParty toTag messages nw us ps ts s =
        batch_loop toUser toParty toTag messages nw ?us ?ps ?ts ?s"
    using more step by (rule batch_loop_unfold_pass)
  have ge: "us \<le> ?us" "ps \<le> ?ps" "ts \<le> ?ts"
    by (simp_all add: advance_ge ToUserBatchSize_def ToPartyBatchSize_def ToTagBatchSize_def)
  have "\<exists>s' obj' tasks.
          batch_loop toUser toParty toTag messages nw ?us ?ps ?ts ?s = Some (Return s')
        \<and> group s' = group ?s @ tasks \<and> (\<forall>t\<in>set tasks. task_nw t = nw)
        \<and> heap s' nw = Some obj' \<and> WechatConfig obj' = WechatConfig ?obj
        \<and> exhausted_empty toUser toParty toTag us ps ts obj'"
  proof (rule batch_loop_result [OF b])
    show "heap ?s nw = Some ?obj" by simp
    show "0 \<le> ?us" "0 \<le> ?ps" "0 \<le> ?ts" using c ge by linarith+
    show "us \<le> ?us" "ps \<le> ?ps" "ts \<le> ?ts" by (rule ge)+
    show "exhausted_empty toUser toParty toTag us ps ts ?obj"
      by (simp add: exhausted_empty_def batch_text_exhausted)
  qed
  then obtain s' obj' later where
    r: "batch_loop toUser toParty toTag messages nw ?us ?ps ?ts ?s = Some (Return s')" and
    g: "group s' = group ?s @ later" and t: "\<forall>t\<in>set later. task_nw t = nw" and
    h': "heap s' nw = Some obj'" and c': "WechatConfig obj' = WechatConfig ?obj" and
    e': "exhausted_empty toUser toParty toTag us ps ts obj'"
    by blast
  have all_nw: "\<forall>t\<in>set (?new @ later). task_nw t = nw" using t by auto
  have req: "\<forall>t\<in>set (?new @ later).
          \<exists>m. task_request (heap s') t = Some m
            \<and> (int (length toUser) \<le> us \<longrightarrow> msgToUser m = [])
            \<and> (int (length toParty) \<le> ps \<longrightarrow> msgToParty m = [])
            \<and> (int (length toTag) \<le> ts \<longrightarrow> Totag m = [])"
  proof
    fix t assume "t \<in> set (?new @ later)"
    with all_nw have "task_nw t = nw" by blast
    with h' c' cfg have "task_request (heap s') t = Some (build_message obj' cfg (task_msg t))"
      by (simp add: task_request_def)
    with e' show "\<exists>m. task_request (heap s') t = Some m
            \<and> (int (length toUser) \<le> us \<longrightarrow> msgToUser m = [])
            \<and> (int (length toParty) \<le> ps \<longrightarrow> msgToParty m = [])
            \<and> (int (length toTag) \<le> ts \<longrightarrow> Totag m = [])"
      by (simp add: exhausted_empty_def build_message_def)
  qed
  have grp: "group s' = group s @ ?new @ later" using g by simp
  have r0: "batch_loop toUser toParty toTag messages nw us ps ts s = Some (Return s')"
    using unfold r by simp
  show ?thesis
  proof (intro exI conjI)
    show "batch_step toUser toParty toTag messages nw us ps ts s = Return (?us, ?ps, ?ts, ?s)"
      by (rule step)
    show "batch_loop toUser toParty toTag messages nw us ps ts s =
        batch_loop toUser toParty toTag messages nw ?us ?ps ?ts ?s"
      by (rule unfold)
    show "batch_loop toUser toParty toTag messages nw us ps ts s = Some (Return s')"
      by (rule r0)
    show "group s' = group s @ ?new @ later" by (rule grp)
    show "\<forall>t\<in>set (?new @ later).
          \<exists>m. task_request (heap s') t = Some m
            \<and> (int (length toUser) \<le> us \<longrightarrow> msgToUser m = [])
            \<and> (int (length toParty) \<le> ps \<longrightarrow> msgToParty m = [])
            \<and> (int (length toTag) \<le> ts \<longrightarrow> Totag m = [])"
      by (rule req)
  qed
qed

theorem batch_loop_exhausted_kind_not_skipped_witness:
  "\<exists>s' m. batch_loop [''u''] [''p''] [''t1'', ''t2''] [''alert''] 0 1000 100 0
              (single_object (Clone (example_instance ''u'' ''p'' ''t1|t2''))) = Some (Return s')
        \<and> task_request (heap s') \<lparr>task_nw = 0, task_msg = ''alert''\<rparr> = Some m
        \<and> msgToUser m = [] \<and> msgToParty m = []"
proof -
  let ?obj = "Clone (example_instance ''u'' ''p'' ''t1|t2'')"
  have h: "heap (single_object ?obj) 0 = Some ?obj" by (simp add: single_object_def)
  have cfg: "WechatConfig ?obj = Some example_config"
    by (simp add: Clone_def example_instance_def)
  have more: "\<not> (int (length [''u'']) \<le> 1000 \<and> int (length [''p'']) \<le> 100
                   \<and> int (length [''t1'', ''t2'']) \<le> 0)" by simp
  from batch_loop_exhausted_kind_not_skipped
         [OF h cfg, of 1000 100 0 "[''u'']" "[''p'']" "[''t1'', ''t2'']" "[''alert'']"] more
  obtain s' later where
    r: "batch_loop [''u''] [''p''] [''t1'', ''t2''] [''alert''] 0 1000 100 0
          (single_object ?obj) = Some (Return s')" and
    q: "\<forall>t\<in>set (map (\<lambda>m. \<lparr>task_nw = 0, task_msg = m\<rparr>) [''alert''] @ later).
          \<exists>m. task_request (heap s') t = Some m
            \<and> (int (length [''u'']) \<le> 1000 \<longrightarrow> msgToUser m = [])
            \<and> (int (length [''p'']) \<le> 100 \<longrightarrow> msgToParty m = [])
            \<and> (int (length [''t1'', ''t2'']) \<le> 0 \<longrightarrow> Totag m = [])"
    by (auto simp: ToUserBatchSize_def ToPartyBatchSize_def ToTagBatchSize_def)
  from q obtain m where "task_request (heap s') \<lparr>task_nw = 0, task_msg = ''alert''\<rparr> = Some m"
    "msgToUser m = []" "msgToParty m = []"
    by auto
  with r show ?thesis by blast
qed

section \<open>Termination of the batching loop\<close>

lemma notify_instance_returns:
  assumes "lists_in_range w"
  shows "\<exists>s'. notify_instance messages w s = Some (Return s')"
proof -
  from assms have
    b: "int (length (Split (ToUser w) (CHR ''|''))) + ToUserBatchSize < 2 ^ 63"
       "int (length (Split (ToParty w) (CHR ''|''))) + ToPartyBatchSize < 2 ^ 63"
       "int (length (Split (ToTag w) (CHR ''|''))) + ToTagBatchSize < 2 ^ 63"
    by (simp_all add: lists_in_range_def)
  show ?thesis
    unfolding notify_instance_def Let_def
    by (rule batch_loop_returns [OF b, where obj = "Clone w"]) simp_all
qed

lemma notify_instances_return:
  "\<forall>w\<in>set ws. lists_in_range w \<Longrightarrow> \<exists>s'. notify_instances messages ws s = Some (Return s')"
proof (induction ws arbitrary: s)
  case Nil
  show ?case by simp
next
  case (Cons w ws)
  from Cons.prems have "lists_in_range w" by simp
  then obtain s1 where one: "notify_instance messages w s = Some (Return s1)"
    using notify_instance_returns by blast
  from Cons.prems have "\<forall>w\<in>set ws. lists_in_range w" by simp
  then obtain s' where "notify_instances messages ws s1 = Some (Return s')"
    using Cons.IH by blast
  with one show ?case by simp
qed

text \<open>With such lists, a call of \<open>Notify\<close> returns or panics; it does not run forever.\<close>

lemma Notify_returns:
  assumes "\<forall>w\<in>set (map snd (wechat n)). lists_in_range w"
  shows "\<exists>r. Notify tsplit world n data st = Some r"
proof (cases "tsplit (template n) data MessageMaxSize (templateName n)")
  case (Inl err)
  then show ?thesis by (simp add: Notify_def)
next
  case (Inr messages)
  from assms obtain s where
    "notify_instances messages (map snd (wechat n))
       \<lparr>heap = Map.empty, next_addr = 0, group = []\<rparr> = Some (Return s)"
    using notify_instances_return by blast
  with Inr show ?thesis by (simp add: Notify_def)
qed

text \<open>
  C10: for the destination lists of every instance, the batching loop of \<open>Notify\<close>
  terminates, and it returns without a panic. Each pass moves every cursor that has not
  passed its list forward by a positive size and moves none backwards
  (\<open>batch_eq\<close>, \<open>advance\<close>), so \<open>remaining\<close> decreases with every pass
  (\<open>remaining_decreases\<close>) until all three cursors are at or past the lengths of their
  lists. The lists are those a Go slice can hold: length plus batch size stays in the
  range of \<^verbatim>\<open>int\<close>.
\<close>

theorem notify_instance_terminates:
  assumes "int (length (Split (ToUser w) (CHR ''|''))) + ToUserBatchSize < 2 ^ 63"
    and "int (length (Split (ToParty w) (CHR ''|''))) + ToPartyBatchSize < 2 ^ 63"
    and "int (length (Split (ToTag w) (CHR ''|''))) + ToTagBatchSize < 2 ^ 63"
  shows "\<exists>s'. notify_instance messages w s = Some (Return s')"
  by (rule notify_instance_returns) (use assms in \<open>simp add: lists_in_range_def\<close>)

theorem notify_instance_terminates_witness:
  "\<exists>s'. notify_instance [''alert''] (example_instance ''a|b|c'' ''p'' [])
          \<lparr>heap = Map.empty, next_addr = 0, group = []\<rparr> = Some (Return s')"
proof (rule notify_instance_terminates)
  show "int (length (Split (ToUser (example_instance ''a|b|c'' ''p'' [])) (CHR ''|'')))
          + ToUserBatchSize < 2 ^ 63"
    by (simp add: example_instance_def ToUserBatchSize_def)
  show "int (length (Split (ToParty (example_instance ''a|b|c'' ''p'' [])) (CHR ''|'')))
          + ToPartyBatchSize < 2 ^ 63"
    by (simp add: example_instance_def ToPartyBatchSize_def)
  show "int (length (Split (ToTag (example_instance ''a|b|c'' ''p'' [])) (CHR ''|'')))
          + ToTagBatchSize < 2 ^ 63"
    by (simp add: example_instance_def ToTagBatchSize_def)
qed

section \<open>Attempts of a task\<close>

lemma attempts_append: "attempts (xs @ ys) = attempts xs + attempts ys"
  by (induction xs rule: attempts.induct) simp_all

lemma trace_log_event: "trace (log_event e st) = trace st @ [e]"
  by (simp add: log_event_def)

lemma attempts_invalidations:
  "attempts (trace (foldl (\<lambda>s cfg. invalidToken cfg s) st cs)) = attempts (trace st)"
  by (induction cs arbitrary: st)
     (simp_all add: invalidToken_def InvalidToken_def log_event_def attempts_append)

lemma attempts_run_pending: "attempts (trace (run_pending k st)) = attempts (trace st)"
  by (simp add: run_pending_def attempts_invalidations)

lemma trace_GetToken: "trace (snd (GetToken key fetch t st)) = trace st"
  by (simp add: GetToken_def split: option.splits sum.splits prod.splits)

lemma trace_getToken:
  "trace (snd (getToken world w cfg st)) =
     trace (run_pending (sched world (gets st)) st)
       @ [GotToken (token_key cfg) (fst (getToken world w cfg st))]"
proof -
  let ?st2 = "(run_pending (sched world (gets st)) st)
                \<lparr>gets := Suc (gets (run_pending (sched world (gets st)) st))\<rparr>"
  have "trace (snd (GetToken (token_key cfg) (get world w) (now world (gets st)) ?st2))
          = trace ?st2"
    by (rule trace_GetToken)
  then show ?thesis
    by (simp add: getToken_def Let_def case_prod_beta log_event_def)
qed

lemma attempts_getToken:
  "attempts (trace (snd (getToken world w cfg st))) = attempts (trace st)"
  by (simp add: trace_getToken attempts_append attempts_run_pending)

lemma attempts_sendMessage:
  "attempts (trace (snd (sendMessage world w cfg m st))) = Suc (attempts (trace st))"
proof -
  obtain r st1 where g: "getToken world w cfg (log_event (Attempt m) st) = (r, st1)"
    by (cases "getToken world w cfg (log_event (Attempt m) st)")
  from attempts_getToken [of world w cfg "log_event (Attempt m) st"] g
  have a: "attempts (trace st1) = Suc (attempts (trace st))"
    by (simp add: log_event_def attempts_append)
  show ?thesis
    unfolding sendMessage_def g
    by (simp add: a Let_def log_event_def spawn_def attempts_append
             split: sum.splits PostResult.splits)
qed

lemma sendMessage_retry:
  "fst (fst (sendMessage world w cfg m st)) = signals_expiry world w cfg m st"
  by (simp add: sendMessage_def signals_expiry_def Let_def AccessTokenInvalid_def
           split: prod.splits sum.splits PostResult.splits)

text \<open>
  C4: a DispatchTask (a call of \<open>send\<close> on an instance that has its config) makes one
  attempt, and a second one exactly when the first attempt signals token expiry; the
  result of that retry is the result of the task, whatever it is. A task whose first
  attempt succeeds or fails in any other way makes one attempt, whose result is final.
  The number of attempts is read off the trace.
\<close>

theorem send_retries_once:
  assumes cfg: "WechatConfig w = Some cfg"
  shows "send world w msg st =
           Return
             (if signals_expiry world w cfg (build_message w cfg msg) st
              then (snd (fst (sendMessage world w cfg (build_message w cfg msg)
                                 (snd (sendMessage world w cfg (build_message w cfg msg) st)))),
                    snd (sendMessage world w cfg (build_message w cfg msg)
                           (snd (sendMessage world w cfg (build_message w cfg msg) st))))
              else (snd (fst (sendMessage world w cfg (build_message w cfg msg) st)),
                    snd (sendMessage world w cfg (build_message w cfg msg) st)))
       \<and> (\<forall>err st'. send world w msg st = Return (err, st') \<longrightarrow>
             attempts (trace st') =
               attempts (trace st) +
                 (if signals_expiry world w cfg (build_message w cfg msg) st then 2 else 1))"
proof -
  let ?m = "build_message w cfg msg"
  let ?a1 = "sendMessage world w cfg ?m st"
  let ?a2 = "sendMessage world w cfg ?m (snd ?a1)"
  have r: "fst (fst ?a1) = signals_expiry world w cfg ?m st"
    by (rule sendMessage_retry)
  have s: "send world w msg st =
      Return (if signals_expiry world w cfg ?m st then (snd (fst ?a2), snd ?a2)
              else (snd (fst ?a1), snd ?a1))"
    by (simp add: send_def cfg Let_def case_prod_beta r)
  have n1: "attempts (trace (snd ?a1)) = Suc (attempts (trace st))"
    by (rule attempts_sendMessage)
  have n2: "attempts (trace (snd ?a2)) = Suc (Suc (attempts (trace st)))"
    by (simp add: attempts_sendMessage)
  from s n1 n2 show ?thesis by (simp split: if_splits)
qed

theorem send_retries_once_witness:
  "\<exists>err st'. send (world_expiring True) (example_instance ''alice'' [] []) ''alert'' initial_state
                = Return (err, st') \<and> attempts (trace st') = 2"
proof -
  have cfg: "WechatConfig (example_instance ''alice'' [] []) = Some example_config"
    by (simp add: example_instance_def)
  have e: "signals_expiry (world_expiring True) (example_instance ''alice'' [] []) example_config
             (build_message (example_instance ''alice'' [] []) example_config ''alert'') initial_state"
    by code_simp
  have t: "attempts (trace initial_state) = 0"
    by (simp add: initial_state_def)
  from send_retries_once [OF cfg, of "world_expiring True" "''alert''" initial_state] e t
  show ?thesis by simp
qed

section \<open>The recipient caps of a request\<close>

lemma batch_entries_le:
  assumes b: "batch src index sz = Return (to, index')"
    and sz: "0 \<le> sz"
    and free: "\<forall>t\<in>set src. CHR ''|'' \<notin> set t"
  shows "int (entries to) \<le> sz"
proof (cases "index > int (length src)")
  case True
  with b have "to = []" by (simp add: batch_def)
  with sz show ?thesis by (simp add: entries_def)
next
  case False
  have w: "0 \<le> index \<Longrightarrow> wrap64 (index + sz) \<le> index + sz"
    by (rule wrap64_le) (use sz in simp)
  show ?thesis
  proof (cases "wrap64 (index + sz) > int (length src)")
    case True
    with False b have i0: "0 \<le> index"
      and to: "to = foldl (\<lambda>to t. to @ t @ ''|'') [] (drop (nat index) src)"
      by (auto simp: batch_def slice_from_def split: if_splits)
    have "\<forall>t\<in>set (drop (nat index) src). CHR ''|'' \<notin> set t"
      using free by (meson in_set_dropD)
    then have "entries to = entries [] + length (drop (nat index) src)"
      unfolding to by (rule entries_foldl)
    then have e: "entries to = length src - nat index"
      by (simp add: entries_def)
    from True w [OF i0] have "int (length src) < index + sz" by simp
    with e i0 sz show ?thesis by linarith
  next
    case F2: False
    let ?sub = "take (nat (wrap64 (index + sz)) - nat index) (drop (nat index) src)"
    from F2 False b have i0: "0 \<le> index" and hi: "index \<le> wrap64 (index + sz)"
      and to: "to = foldl (\<lambda>to t. to @ t @ ''|'') [] ?sub"
      by (auto simp: batch_def slice_def split: if_splits)
    have "\<forall>t\<in>set ?sub. CHR ''|'' \<notin> set t"
      using free by (meson in_set_dropD in_set_takeD)
    then have "entries to = entries [] + length ?sub"
      unfolding to by (rule entries_foldl)
    then have e: "entries to \<le> nat (wrap64 (index + sz)) - nat index"
      by (simp add: entries_def)
    with w [OF i0] i0 hi sz show ?thesis by linarith
  qed
qed

lemma heap_foldl_Add: "heap (foldl (\<lambda>g m. Add (T m) g) s ms) = heap s"
  by (simp add: foldl_Add)

lemma store_ReturnD:
  "store a f s = Return s1 \<Longrightarrow> \<exists>obj. heap s a = Some obj \<and> s1 = s\<lparr>heap := (heap s)(a \<mapsto> f obj)\<rparr>"
  by (simp add: store_def split: option.splits)

lemma batch_step_ReturnE:
  assumes "batch_step toUser toParty toTag messages nw us ps ts s = Return (us', ps', ts', s')"
  obtains u p t s1 s2 s3 where
    "batch toUser us ToUserBatchSize = Return (u, us')"
    "store nw (\<lambda>obj. obj\<lparr>ToUser := u\<rparr>) s = Return s1"
    "batch toParty ps ToPartyBatchSize = Return (p, ps')"
    "store nw (\<lambda>obj. obj\<lparr>ToParty := p\<rparr>) s1 = Return s2"
    "batch toTag ts ToTagBatchSize = Return (t, ts')"
    "store nw (\<lambda>obj. obj\<lparr>ToTag := t\<rparr>) s2 = Return s3"
    "s' = foldl (\<lambda>g m. Add \<lparr>task_nw = nw, task_msg = m\<rparr> g) s3 messages"
proof (cases "batch toUser us ToUserBatchSize")
  case Panic
  with assms show ?thesis by (simp add: batch_step_def)
next
  case (Return r1)
  obtain u us1 where r1: "r1 = (u, us1)" by (cases r1)
  show ?thesis
  proof (cases "store nw (\<lambda>obj. obj\<lparr>ToUser := u\<rparr>) s")
    case Panic
    with assms Return r1 show ?thesis by (simp add: batch_step_def)
  next
    case R2: (Return s1)
    show ?thesis
    proof (cases "batch toParty ps ToPartyBatchSize")
      case Panic
      with assms Return r1 R2 show ?thesis by (simp add: batch_step_def)
    next
      case R3: (Return r3)
      obtain p ps1 where r3: "r3 = (p, ps1)" by (cases r3)
      show ?thesis
      proof (cases "store nw (\<lambda>obj. obj\<lparr>ToParty := p\<rparr>) s1")
        case Panic
        with assms Return r1 R2 R3 r3 show ?thesis by (simp add: batch_step_def)
      next
        case R4: (Return s2)
        show ?thesis
        proof (cases "batch toTag ts ToTagBatchSize")
          case Panic
          with assms Return r1 R2 R3 r3 R4 show ?thesis by (simp add: batch_step_def)
        next
          case R5: (Return r5)
          obtain t ts1 where r5: "r5 = (t, ts1)" by (cases r5)
          show ?thesis
          proof (cases "store nw (\<lambda>obj. obj\<lparr>ToTag := t\<rparr>) s2")
            case Panic
            with assms Return r1 R2 R3 r3 R4 R5 r5 show ?thesis by (simp add: batch_step_def)
          next
            case R6: (Return s3)
            from assms Return r1 R2 R3 r3 R4 R5 r5 R6
            have "us1 = us'" "ps1 = ps'" "ts1 = ts'"
              "s' = foldl (\<lambda>g m. Add \<lparr>task_nw = nw, task_msg = m\<rparr> g) s3 messages"
              by (simp_all add: batch_step_def)
            with Return r1 R2 R3 r3 R4 R5 r5 R6 that show ?thesis by simp
          qed
        qed
      qed
    qed
  qed
qed

lemma batch_step_caps:
  assumes step: "batch_step toUser toParty toTag messages nw us ps ts s = Return (us', ps', ts', s')"
    and free: "\<forall>t\<in>set toUser. CHR ''|'' \<notin> set t" "\<forall>t\<in>set toParty. CHR ''|'' \<notin> set t"
              "\<forall>t\<in>set toTag. CHR ''|'' \<notin> set t"
    and inv: "heap_within_caps (heap s)"
  shows "heap_within_caps (heap s')"
proof -
  from step obtain u p t s1 s2 s3 where
    u: "batch toUser us ToUserBatchSize = Return (u, us')" and
    s1: "store nw (\<lambda>obj. obj\<lparr>ToUser := u\<rparr>) s = Return s1" and
    p: "batch toParty ps ToPartyBatchSize = Return (p, ps')" and
    s2: "store nw (\<lambda>obj. obj\<lparr>ToParty := p\<rparr>) s1 = Return s2" and
    t: "batch toTag ts ToTagBatchSize = Return (t, ts')" and
    s3: "store nw (\<lambda>obj. obj\<lparr>ToTag := t\<rparr>) s2 = Return s3" and
    s': "s' = foldl (\<lambda>g m. Add \<lparr>task_nw = nw, task_msg = m\<rparr> g) s3 messages"
    by (rule batch_step_ReturnE)
  from s1 obtain obj where h: "heap s nw = Some obj"
    and h1: "heap s1 = (heap s)(nw \<mapsto> obj\<lparr>ToUser := u\<rparr>)"
    by (auto dest: store_ReturnD)
  from s2 h1 have h2: "heap s2 = (heap s)(nw \<mapsto> obj\<lparr>ToUser := u, ToParty := p\<rparr>)"
    by (auto dest: store_ReturnD)
  from s3 h2 have h3: "heap s3 = (heap s)(nw \<mapsto> obj\<lparr>ToUser := u, ToParty := p, ToTag := t\<rparr>)"
    by (auto dest: store_ReturnD)
  have s': "heap s' = (heap s)(nw \<mapsto> obj\<lparr>ToUser := u, ToParty := p, ToTag := t\<rparr>)"
    by (simp add: s' heap_foldl_Add h3)
  have "int (entries u) \<le> ToUserBatchSize"
    using u _ free(1) by (rule batch_entries_le) (simp add: ToUserBatchSize_def)
  moreover have "int (entries p) \<le> ToPartyBatchSize"
    using p _ free(2) by (rule batch_entries_le) (simp add: ToPartyBatchSize_def)
  moreover have "int (entries t) \<le> ToTagBatchSize"
    using t _ free(3) by (rule batch_entries_le) (simp add: ToTagBatchSize_def)
  ultimately have "object_within_caps (obj\<lparr>ToUser := u, ToParty := p, ToTag := t\<rparr>)"
    by (simp add: object_within_caps_def)
  with inv show ?thesis
    by (simp add: heap_within_caps_def s')
qed

lemma batch_loop_caps:
  assumes run: "batch_loop toUser toParty toTag messages nw us ps ts s = Some r"
  shows "(\<forall>t\<in>set toUser. CHR ''|'' \<notin> set t) \<longrightarrow> (\<forall>t\<in>set toParty. CHR ''|'' \<notin> set t) \<longrightarrow>
         (\<forall>t\<in>set toTag. CHR ''|'' \<notin> set t) \<longrightarrow> heap_within_caps (heap s) \<longrightarrow>
         (\<forall>s'. r = Return s' \<longrightarrow> heap_within_caps (heap s'))"
proof (rule batch_loop.raw_induct
    [where P = "\<lambda>toUser toParty toTag messages nw us ps ts s r.
         (\<forall>t\<in>set toUser. CHR ''|'' \<notin> set t) \<longrightarrow> (\<forall>t\<in>set toParty. CHR ''|'' \<notin> set t) \<longrightarrow>
         (\<forall>t\<in>set toTag. CHR ''|'' \<notin> set t) \<longrightarrow> heap_within_caps (heap s) \<longrightarrow>
         (\<forall>s'. r = Return s' \<longrightarrow> heap_within_caps (heap s'))", OF _ run])
  fix loop :: "string list \<Rightarrow> string list \<Rightarrow> string list \<Rightarrow> string list \<Rightarrow> addr \<Rightarrow>
               int \<Rightarrow> int \<Rightarrow> int \<Rightarrow> NotifyState \<Rightarrow> NotifyState go option"
  fix toUser toParty toTag messages :: "string list" and nw :: addr
    and us ps ts :: int and s :: NotifyState and r :: "NotifyState go"
  assume IH: "\<And>toUser toParty toTag messages nw us ps ts s r.
        loop toUser toParty toTag messages nw us ps ts s = Some r \<Longrightarrow>
        (\<forall>t\<in>set toUser. CHR ''|'' \<notin> set t) \<longrightarrow> (\<forall>t\<in>set toParty. CHR ''|'' \<notin> set t) \<longrightarrow>
         (\<forall>t\<in>set toTag. CHR ''|'' \<notin> set t) \<longrightarrow> heap_within_caps (heap s) \<longrightarrow>
         (\<forall>s'. r = Return s' \<longrightarrow> heap_within_caps (heap s'))"
  assume eq: "(if int (length toUser) \<le> us \<and> int (length toParty) \<le> ps \<and> int (length toTag) \<le> ts
      then Some (Return s)
      else case batch_step toUser toParty toTag messages nw us ps ts s of
             Panic \<Rightarrow> Some Panic
           | Return (us', ps', ts', s') \<Rightarrow> loop toUser toParty toTag messages nw us' ps' ts' s')
     = Some r"
  show "(\<forall>t\<in>set toUser. CHR ''|'' \<notin> set t) \<longrightarrow> (\<forall>t\<in>set toParty. CHR ''|'' \<notin> set t) \<longrightarrow>
         (\<forall>t\<in>set toTag. CHR ''|'' \<notin> set t) \<longrightarrow> heap_within_caps (heap s) \<longrightarrow>
         (\<forall>s'. r = Return s' \<longrightarrow> heap_within_caps (heap s'))"
  proof (intro impI allI)
    fix s'
    assume free: "\<forall>t\<in>set toUser. CHR ''|'' \<notin> set t" "\<forall>t\<in>set toParty. CHR ''|'' \<notin> set t"
       "\<forall>t\<in>set toTag. CHR ''|'' \<notin> set t"
      and inv: "heap_within_caps (heap s)" and r: "r = Return s'"
    show "heap_within_caps (heap s')"
    proof (cases "int (length toUser) \<le> us \<and> int (length toParty) \<le> ps \<and> int (length toTag) \<le> ts")
      case True
      with eq r have "s' = s" by simp
      with inv show ?thesis by simp
    next
      case False
      with eq have e: "(case batch_step toUser toParty toTag messages nw us ps ts s of
               Panic \<Rightarrow> Some Panic
             | Return (us', ps', ts', s') \<Rightarrow> loop toUser toParty toTag messages nw us' ps' ts' s')
            = Some r"
        by (simp only: if_False)
      show ?thesis
      proof (cases "batch_step toUser toParty toTag messages nw us ps ts s")
        case Panic
        with e r show ?thesis by simp
      next
        case (Return q)
        obtain us' ps' ts' s1 where q: "q = (us', ps', ts', s1)" by (cases q)
        from e Return q have rec: "loop toUser toParty toTag messages nw us' ps' ts' s1 = Some r"
          by simp
        have step: "batch_step toUser toParty toTag messages nw us ps ts s = Return (us', ps', ts', s1)"
          using Return q by simp
        have inv1: "heap_within_caps (heap s1)"
          using step free inv by (rule batch_step_caps)
        from IH [OF rec] free inv1 r show ?thesis by blast
      qed
    qed
  qed
qed

lemma Clone_within_caps: "object_within_caps (Clone w)"
  by (simp add: object_within_caps_def Clone_def entries_def ToUserBatchSize_def
        ToPartyBatchSize_def ToTagBatchSize_def)

lemma notify_instance_caps:
  assumes run: "notify_instance messages w s = Some (Return s')"
    and inv: "heap_within_caps (heap s)"
  shows "heap_within_caps (heap s')"
proof -
  let ?s1 = "s\<lparr>heap := (heap s)(next_addr s \<mapsto> Clone w), next_addr := Suc (next_addr s)\<rparr>"
  from run have loop: "batch_loop (Split (ToUser w) (CHR ''|'')) (Split (ToParty w) (CHR ''|''))
        (Split (ToTag w) (CHR ''|'')) messages (next_addr s) 0 0 0 ?s1 = Some (Return s')"
    by (simp add: notify_instance_def Let_def)
  have "heap_within_caps (heap ?s1)"
    using inv by (simp add: heap_within_caps_def Clone_within_caps)
  with batch_loop_caps [OF loop] show ?thesis
    by (simp add: Split_free)
qed

lemma notify_instances_caps:
  "notify_instances messages ws s = Some (Return s') \<Longrightarrow> heap_within_caps (heap s) \<Longrightarrow>
   heap_within_caps (heap s')"
proof (induction ws arbitrary: s)
  case Nil
  then show ?case by simp
next
  case (Cons w ws)
  from Cons.prems(1) obtain s1 where
    one: "notify_instance messages w s = Some (Return s1)" and
    rest: "notify_instances messages ws s1 = Some (Return s')"
    by (auto split: option.splits go.splits)
  from one Cons.prems(2) have "heap_within_caps (heap s1)"
    by (rule notify_instance_caps)
  with rest show ?case by (rule Cons.IH)
qed

lemma requests_append: "requests (xs @ ys) = requests xs @ requests ys"
  by (induction xs rule: requests.induct) simp_all

lemma requests_invalidations:
  "requests (trace (foldl (\<lambda>s cfg. invalidToken cfg s) st cs)) = requests (trace st)"
  by (induction cs arbitrary: st)
     (simp_all add: invalidToken_def InvalidToken_def log_event_def requests_append)

lemma requests_run_pending: "requests (trace (run_pending k st)) = requests (trace st)"
  by (simp add: run_pending_def requests_invalidations)

lemma requests_getToken:
  "requests (trace (snd (getToken world w cfg st))) = requests (trace st)"
  by (simp add: trace_getToken requests_append requests_run_pending)

lemma requests_sendMessage_sent:
  "\<exists>sent. requests (trace (snd (sendMessage world w cfg m st))) = requests (trace st) @ sent
         \<and> set sent \<subseteq> {m}"
proof -
  obtain r st1 where g: "getToken world w cfg (log_event (Attempt m) st) = (r, st1)"
    by (cases "getToken world w cfg (log_event (Attempt m) st)")
  from requests_getToken [of world w cfg "log_event (Attempt m) st"] g
  have a: "requests (trace st1) = requests (trace st)"
    by (simp add: log_event_def requests_append)
  have none: "requests (trace st) = requests (trace st) @ [] \<and> set [] \<subseteq> {m}" by simp
  have one: "requests (trace st) @ [m] = requests (trace st) @ [m] \<and> set [m] \<subseteq> {m}" by simp
  show ?thesis
  proof (cases r)
    case (Inl err)
    with g a have "requests (trace (snd (sendMessage world w cfg m st))) = requests (trace st)"
      by (simp add: sendMessage_def)
    with none show ?thesis by metis
  next
    case (Inr token)
    have b: "requests (trace (st1\<lparr>posts := Suc (posts st1)\<rparr>)) = requests (trace st)"
      using a by simp
    have c: "requests (trace (log_event (Request token m) (st1\<lparr>posts := Suc (posts st1)\<rparr>)))
               = requests (trace st) @ [m]"
      using a by (simp add: log_event_def requests_append)
    have d: "requests (trace (spawn cfg (log_event (Request token m) (st1\<lparr>posts := Suc (posts st1)\<rparr>))))
               = requests (trace st) @ [m]"
      using a by (simp add: spawn_def log_event_def requests_append)
    have "requests (trace (snd (sendMessage world w cfg m st))) = requests (trace st)
        \<or> requests (trace (snd (sendMessage world w cfg m st))) = requests (trace st) @ [m]"
    proof (cases "post world (posts st1) token m")
      case (Response weResp)
      with g Inr c d show ?thesis
        by (simp add: sendMessage_def Let_def)
    qed (use g Inr b c in \<open>simp_all add: sendMessage_def Let_def\<close>)
    with none one show ?thesis by metis
  qed
qed

lemma requests_send_sent:
  assumes "send world w msg st = Return (err, st')" "object_within_caps w"
  shows "\<exists>sent. requests (trace st') = requests (trace st) @ sent
           \<and> (\<forall>m\<in>set sent. within_caps m)"
proof -
  from assms(1) obtain cfg where cfg: "WechatConfig w = Some cfg"
    by (auto simp: send_def split: option.splits)
  let ?m = "build_message w cfg msg"
  let ?a1 = "sendMessage world w cfg ?m st"
  let ?a2 = "sendMessage world w cfg ?m (snd ?a1)"
  have m: "within_caps ?m"
    using assms(2) by (simp add: within_caps_def object_within_caps_def build_message_def)
  obtain sent1 where 1: "requests (trace (snd ?a1)) = requests (trace st) @ sent1"
    and s1: "set sent1 \<subseteq> {?m}"
    using requests_sendMessage_sent by blast
  obtain sent2 where 2: "requests (trace (snd ?a2)) = requests (trace (snd ?a1)) @ sent2"
    and s2: "set sent2 \<subseteq> {?m}"
    using requests_sendMessage_sent by blast
  from assms(1) cfg have "st' = snd ?a1 \<or> st' = snd ?a2"
    by (auto simp: send_def Let_def case_prod_beta split: if_splits)
  then show ?thesis
  proof
    assume "st' = snd ?a1"
    with 1 have "requests (trace st') = requests (trace st) @ sent1" by simp
    moreover have "\<forall>x\<in>set sent1. within_caps x" using s1 m by auto
    ultimately show ?thesis by blast
  next
    assume "st' = snd ?a2"
    with 1 2 have "requests (trace st') = requests (trace st) @ (sent1 @ sent2)" by simp
    moreover have "\<forall>x\<in>set (sent1 @ sent2). within_caps x" using s1 s2 m by auto
    ultimately show ?thesis by blast
  qed
qed

lemma requests_run_tasks_sent:
  "run_tasks world h ts st = Return (errs, st') \<Longrightarrow> heap_within_caps h \<Longrightarrow>
   \<exists>sent. requests (trace st') = requests (trace st) @ sent \<and> (\<forall>m\<in>set sent. within_caps m)"
proof (induction ts arbitrary: st errs)
  case Nil
  then have "requests (trace st') = requests (trace st) @ [] \<and> (\<forall>m\<in>set []. within_caps m)"
    by simp
  then show ?case by blast
next
  case (Cons t ts)
  from Cons.prems(1) obtain w err st1 errs1 where
    w: "h (task_nw t) = Some w" and
    s: "send world w (task_msg t) st = Return (err, st1)" and
    r: "run_tasks world h ts st1 = Return (errs1, st')"
    by (auto split: option.splits go.splits prod.splits)
  from w Cons.prems(2) have "object_within_caps w"
    by (simp add: heap_within_caps_def)
  with s obtain sent1 where 1: "requests (trace st1) = requests (trace st) @ sent1"
    and c1: "\<forall>m\<in>set sent1. within_caps m"
    using requests_send_sent by blast
  from r Cons.prems(2) obtain sent2 where 2: "requests (trace st') = requests (trace st1) @ sent2"
    and c2: "\<forall>m\<in>set sent2. within_caps m"
    using Cons.IH by blast
  from 1 2 have "requests (trace st') = requests (trace st) @ (sent1 @ sent2)" by simp
  moreover from c1 c2 have "\<forall>m\<in>set (sent1 @ sent2). within_caps m" by auto
  ultimately show ?case by blast
qed

lemma requests_Notify_sent:
  assumes "Notify tsplit world n data st = Some (Return (errs, st'))"
  shows "\<exists>sent. requests (trace st') = requests (trace st) @ sent \<and> (\<forall>m\<in>set sent. within_caps m)"
proof (cases "tsplit (template n) data MessageMaxSize (templateName n)")
  case (Inl err)
  with assms have "requests (trace st') = requests (trace st) @ [] \<and> (\<forall>m\<in>set []. within_caps m)"
    by (simp add: Notify_def)
  then show ?thesis by blast
next
  case (Inr messages)
  with assms(1) obtain s where
    i: "notify_instances messages (map snd (wechat n))
          \<lparr>heap = Map.empty, next_addr = 0, group = []\<rparr> = Some (Return s)" and
    w: "Wait world s st = Return (errs, st')"
    by (auto simp: Notify_def split: option.splits go.splits)
  have "heap_within_caps (heap s)"
    using i by (rule notify_instances_caps) (simp add: heap_within_caps_def)
  with w show ?thesis
    unfolding Wait_def by (rule requests_run_tasks_sent)
qed

lemma batch_slice_le:
  assumes b: "batch src index sz = Return (to, index')" and sz: "0 \<le> sz"
  shows "\<exists>k len. to = foldl (\<lambda>to t. to @ t @ ''|'') [] (take len (drop k src))
           \<and> int (length (take len (drop k src))) \<le> sz"
proof (cases "index > int (length src)")
  case True
  with b have "to = foldl (\<lambda>to t. to @ t @ ''|'') [] (take 0 (drop 0 src))"
    by (simp add: batch_def)
  moreover have "int (length (take 0 (drop 0 src))) \<le> sz" using sz by simp
  ultimately show ?thesis by blast
next
  case False
  have w: "0 \<le> index \<Longrightarrow> wrap64 (index + sz) \<le> index + sz"
    by (rule wrap64_le) (use sz in simp)
  show ?thesis
  proof (cases "wrap64 (index + sz) > int (length src)")
    case True
    with False b have i0: "0 \<le> index"
      and to: "to = foldl (\<lambda>to t. to @ t @ ''|'') [] (drop (nat index) src)"
      by (auto simp: batch_def slice_from_def split: if_splits)
    from True w [OF i0] have "int (length src) < index + sz" by simp
    with i0 sz have l: "int (length (drop (nat index) src)) \<le> sz" by simp
    have "drop (nat index) src = take (length src) (drop (nat index) src)" by simp
    with to l have "to = foldl (\<lambda>to t. to @ t @ ''|'') [] (take (length src) (drop (nat index) src))
           \<and> int (length (take (length src) (drop (nat index) src))) \<le> sz"
      by simp
    then show ?thesis by blast
  next
    case F2: False
    let ?len = "nat (wrap64 (index + sz)) - nat index"
    from F2 False b have i0: "0 \<le> index" and hi: "index \<le> wrap64 (index + sz)"
      and to: "to = foldl (\<lambda>to t. to @ t @ ''|'') [] (take ?len (drop (nat index) src))"
      by (auto simp: batch_def slice_def split: if_splits)
    have "int (length (take ?len (drop (nat index) src))) \<le> int ?len" by simp
    also have "\<dots> \<le> sz" using w [OF i0] i0 hi sz by linarith
    finally have "int (length (take ?len (drop (nat index) src))) \<le> sz" .
    with to show ?thesis by blast
  qed
qed

text \<open>
  C8: every dispatched request respects the channel's per-kind recipient caps. For every
  input list, cursor position and size (a cap: not negative), \<open>batch\<close> returns the
  rendering of a run of at most \<open>size\<close> consecutive recipients of the list; so every
  request that a call of \<open>Notify\<close> sends carries at most 1000 \<^verbatim>\<open>touser\<close>, 100 \<^verbatim>\<open>toparty\<close>
  and 100 \<^verbatim>\<open>totag\<close> entries.
\<close>

theorem requests_within_caps:
  "(batch src index sz = Return (to, index') \<longrightarrow> 0 \<le> sz \<longrightarrow>
      (\<exists>k len. to = foldl (\<lambda>to t. to @ t @ ''|'') [] (take len (drop k src))
          \<and> int (length (take len (drop k src))) \<le> sz))
   \<and> (Notify tsplit world n data st = Some (Return (errs, st')) \<longrightarrow>
      (\<exists>sent. requests (trace st') = requests (trace st) @ sent
          \<and> (\<forall>m\<in>set sent. within_caps m)))"
proof (intro conjI impI)
  assume "batch src index sz = Return (to, index')" "0 \<le> sz"
  then show "\<exists>k len. to = foldl (\<lambda>to t. to @ t @ ''|'') [] (take len (drop k src))
          \<and> int (length (take len (drop k src))) \<le> sz"
    by (rule batch_slice_le)
next
  assume "Notify tsplit world n data st = Some (Return (errs, st'))"
  then show "\<exists>sent. requests (trace st') = requests (trace st) @ sent
          \<and> (\<forall>m\<in>set sent. within_caps m)"
    by (rule requests_Notify_sent)
qed

theorem requests_within_caps_witness:
  "(\<exists>k len. ''a|b|'' = foldl (\<lambda>to t. to @ t @ ''|'') [] (take len (drop k [''a'', ''b'', ''c'']))
       \<and> int (length (take len (drop k [''a'', ''b'', ''c'']))) \<le> 2)
   \<and> within_caps \<lparr>Content = ''alert'', msgToUser = ''alice|'', msgToParty = ''|'',
        Totag = ''|'', msgAgentID = ''1000002'', Safe = ''0'', msgType = ''text''\<rparr>"
proof -
  let ?m = "\<lparr>Content = ''alert'', msgToUser = ''alice|'', msgToParty = ''|'',
        Totag = ''|'', msgAgentID = ''1000002'', Safe = ''0'', msgType = ''text''\<rparr>"
  let ?run = "Notify one_chunk (world_answering 0 ''ok'')
        (example_notifier [(''k'', example_instance ''alice'' [] [])]) () initial_state"
  have b: "batch [''a'', ''b'', ''c''] 0 2 = Return (''a|b|'', 2)"
    by (simp add: batch_def wrap64_def slice_def)
  have "errors_and_requests ?run = Some (Return ([], [?m]))"
    by code_simp
  then obtain r where r: "?run = Some r"
    and v: "map_go (\<lambda>(errs, st). (errs, requests (trace st))) r = Return ([], [?m])"
    by (auto simp: errors_and_requests_def)
  from v obtain errs st' where "r = Return (errs, st')"
    and reqs: "requests (trace st') = [?m]"
    by (cases r) auto
  with r have run: "?run = Some (Return (errs, st'))" by simp
  have init: "requests (trace initial_state) = []"
    by (simp add: initial_state_def)
  from requests_within_caps
         [of "[''a'', ''b'', ''c'']" 0 2 "''a|b|''" 2 one_chunk "world_answering 0 ''ok''"
             "example_notifier [(''k'', example_instance ''alice'' [] [])]" "()"
             initial_state errs st']
       b run init reqs
  show ?thesis by auto
qed

section \<open>What a task sends\<close>

text \<open>
  The loop of an instance writes to its own clone only, and the instances that follow
  allocate clones of their own: the object that a task reads when \<open>Wait\<close> runs it is the one
  the loop of its instance left. The requests of a task carry the message built from that
  object.
\<close>

lemma batch_step_heap_other:
  assumes "batch_step toUser toParty toTag messages nw us ps ts s = Return (us', ps', ts', s')"
  shows "(\<forall>a. a \<noteq> nw \<longrightarrow> heap s' a = heap s a) \<and> next_addr s' = next_addr s"
proof -
  from assms obtain u p t s1 s2 s3 where
    s1: "store nw (\<lambda>obj. obj\<lparr>ToUser := u\<rparr>) s = Return s1" and
    s2: "store nw (\<lambda>obj. obj\<lparr>ToParty := p\<rparr>) s1 = Return s2" and
    s3: "store nw (\<lambda>obj. obj\<lparr>ToTag := t\<rparr>) s2 = Return s3" and
    s': "s' = foldl (\<lambda>g m. Add \<lparr>task_nw = nw, task_msg = m\<rparr> g) s3 messages"
    by (rule batch_step_ReturnE)
  from s1 have 1: "(\<forall>a. a \<noteq> nw \<longrightarrow> heap s1 a = heap s a) \<and> next_addr s1 = next_addr s"
    by (auto dest: store_ReturnD)
  from s2 have 2: "(\<forall>a. a \<noteq> nw \<longrightarrow> heap s2 a = heap s1 a) \<and> next_addr s2 = next_addr s1"
    by (auto dest: store_ReturnD)
  from s3 have 3: "(\<forall>a. a \<noteq> nw \<longrightarrow> heap s3 a = heap s2 a) \<and> next_addr s3 = next_addr s2"
    by (auto dest: store_ReturnD)
  from 1 2 3 show ?thesis by (simp add: s' foldl_Add)
qed

lemma batch_loop_heap_other:
  assumes run: "batch_loop toUser toParty toTag messages nw us ps ts s = Some r"
  shows "\<forall>s'. r = Return s' \<longrightarrow>
           (\<forall>a. a \<noteq> nw \<longrightarrow> heap s' a = heap s a) \<and> next_addr s' = next_addr s"
proof (rule batch_loop.raw_induct
    [where P = "\<lambda>toUser toParty toTag messages nw us ps ts s r.
         \<forall>s'. r = Return s' \<longrightarrow>
           (\<forall>a. a \<noteq> nw \<longrightarrow> heap s' a = heap s a) \<and> next_addr s' = next_addr s", OF _ run])
  fix loop :: "string list \<Rightarrow> string list \<Rightarrow> string list \<Rightarrow> string list \<Rightarrow> addr \<Rightarrow>
               int \<Rightarrow> int \<Rightarrow> int \<Rightarrow> NotifyState \<Rightarrow> NotifyState go option"
  fix toUser toParty toTag messages :: "string list" and nw :: addr
    and us ps ts :: int and s :: NotifyState and r :: "NotifyState go"
  assume IH: "\<And>toUser toParty toTag messages nw us ps ts s r.
        loop toUser toParty toTag messages nw us ps ts s = Some r \<Longrightarrow>
        \<forall>s'. r = Return s' \<longrightarrow>
           (\<forall>a. a \<noteq> nw \<longrightarrow> heap s' a = heap s a) \<and> next_addr s' = next_addr s"
  assume eq: "(if int (length toUser) \<le> us \<and> int (length toParty) \<le> ps \<and> int (length toTag) \<le> ts
      then Some (Return s)
      else case batch_step toUser toParty toTag messages nw us ps ts s of
             Panic \<Rightarrow> Some Panic
           | Return (us', ps', ts', s') \<Rightarrow> loop toUser toParty toTag messages nw us' ps' ts' s')
     = Some r"
  show "\<forall>s'. r = Return s' \<longrightarrow>
           (\<forall>a. a \<noteq> nw \<longrightarrow> heap s' a = heap s a) \<and> next_addr s' = next_addr s"
  proof (intro allI impI)
    fix s'
    assume r: "r = Return s'"
    show "(\<forall>a. a \<noteq> nw \<longrightarrow> heap s' a = heap s a) \<and> next_addr s' = next_addr s"
    proof (cases "int (length toUser) \<le> us \<and> int (length toParty) \<le> ps \<and> int (length toTag) \<le> ts")
      case True
      with eq r have "s' = s" by simp
      then show ?thesis by simp
    next
      case False
      with eq have e: "(case batch_step toUser toParty toTag messages nw us ps ts s of
               Panic \<Rightarrow> Some Panic
             | Return (us', ps', ts', s') \<Rightarrow> loop toUser toParty toTag messages nw us' ps' ts' s')
            = Some r"
        by (simp only: if_False)
      show ?thesis
      proof (cases "batch_step toUser toParty toTag messages nw us ps ts s")
        case Panic
        with e r show ?thesis by simp
      next
        case (Return q)
        obtain us' ps' ts' s1 where q: "q = (us', ps', ts', s1)" by (cases q)
        from e Return q have rec: "loop toUser toParty toTag messages nw us' ps' ts' s1 = Some r"
          by simp
        have "batch_step toUser toParty toTag messages nw us ps ts s = Return (us', ps', ts', s1)"
          using Return q by simp
        then have 1: "(\<forall>a. a \<noteq> nw \<longrightarrow> heap s1 a = heap s a) \<and> next_addr s1 = next_addr s"
          by (rule batch_step_heap_other)
        from IH [OF rec] r
        have 2: "(\<forall>a. a \<noteq> nw \<longrightarrow> heap s' a = heap s1 a) \<and> next_addr s' = next_addr s1"
          by blast
        from 1 2 show ?thesis by simp
      qed
    qed
  qed
qed

lemma notify_instance_heap_kept:
  assumes "notify_instance messages w s = Some (Return s')"
  shows "(\<forall>a. a \<noteq> next_addr s \<longrightarrow> heap s' a = heap s a) \<and> next_addr s' = Suc (next_addr s)"
proof -
  let ?s1 = "s\<lparr>heap := (heap s)(next_addr s \<mapsto> Clone w), next_addr := Suc (next_addr s)\<rparr>"
  from assms have "batch_loop (Split (ToUser w) (CHR ''|'')) (Split (ToParty w) (CHR ''|''))
        (Split (ToTag w) (CHR ''|'')) messages (next_addr s) 0 0 0 ?s1 = Some (Return s')"
    by (simp add: notify_instance_def Let_def)
  from batch_loop_heap_other [OF this] show ?thesis by simp
qed

lemma notify_instances_heap_kept:
  "notify_instances messages ws s = Some (Return s') \<Longrightarrow> a < next_addr s \<Longrightarrow>
   heap s' a = heap s a"
proof (induction ws arbitrary: s)
  case Nil
  then show ?case by simp
next
  case (Cons w ws)
  from Cons.prems(1) obtain s1 where
    one: "notify_instance messages w s = Some (Return s1)" and
    rest: "notify_instances messages ws s1 = Some (Return s')"
    by (auto split: option.splits go.splits)
  from notify_instance_heap_kept [OF one] Cons.prems(2)
  have 1: "heap s1 a = heap s a" and 2: "a < next_addr s1" by simp_all
  from Cons.IH [OF rest 2] 1 show ?case by simp
qed

lemma task_request_sent:
  assumes "h (task_nw t) = Some w" "send world w (task_msg t) st = Return (err, st')"
  shows "\<exists>m sent. task_request h t = Some m
           \<and> requests (trace st') = requests (trace st) @ sent \<and> set sent \<subseteq> {m}"
proof -
  from assms(2) obtain cfg where cfg: "WechatConfig w = Some cfg"
    by (auto simp: send_def split: option.splits)
  let ?m = "build_message w cfg (task_msg t)"
  let ?a1 = "sendMessage world w cfg ?m st"
  let ?a2 = "sendMessage world w cfg ?m (snd ?a1)"
  have tr: "task_request h t = Some ?m" using assms(1) cfg by (simp add: task_request_def)
  obtain sent1 where 1: "requests (trace (snd ?a1)) = requests (trace st) @ sent1"
    and s1: "set sent1 \<subseteq> {?m}"
    using requests_sendMessage_sent by blast
  obtain sent2 where 2: "requests (trace (snd ?a2)) = requests (trace (snd ?a1)) @ sent2"
    and s2: "set sent2 \<subseteq> {?m}"
    using requests_sendMessage_sent by blast
  from assms(2) cfg have "st' = snd ?a1 \<or> st' = snd ?a2"
    by (auto simp: send_def Let_def case_prod_beta split: if_splits)
  then show ?thesis
  proof
    assume "st' = snd ?a1"
    with 1 s1 tr show ?thesis by blast
  next
    assume "st' = snd ?a2"
    with 1 2 have "requests (trace st') = requests (trace st) @ (sent1 @ sent2)" by simp
    moreover have "set (sent1 @ sent2) \<subseteq> {?m}" using s1 s2 by auto
    ultimately show ?thesis using tr by blast
  qed
qed

section \<open>Invalidation of the token and the retry\<close>

text \<open>
  When the goroutine that invalidates the token has run before the retry reaches the
  cache, the retry fetches the new token \<open>T1\<close> and the task succeeds.
\<close>

lemma send_retry_after_invalidation:
 "map_go (\<lambda>(err, st). (err, trace st, map token_key (pending st)))
     (send (world_expiring True) (example_instance ''alice|'' [] []) ''alert'' initial_state)
  = Return (None,
      [Attempt (build_message (example_instance ''alice|'' [] []) example_config ''alert''),
       GotToken ''corp | 1000002'' (Inr ''T0''),
       Request ''T0'' (build_message (example_instance ''alice|'' [] []) example_config ''alert''),
       InvalidateStarted ''corp | 1000002'',
       Attempt (build_message (example_instance ''alice|'' [] []) example_config ''alert''),
       Invalidated ''corp | 1000002'',
       GotToken ''corp | 1000002'' (Inr ''T1''),
       Request ''T1'' (build_message (example_instance ''alice|'' [] []) example_config ''alert'')],
      [])"
  by code_simp

text \<open>
  C7, at a failing input: the channel rejects the cached token \<open>T0\<close> as expired, and the
  goroutine started by \<^verbatim>\<open>go n.invalidToken(ctx, w)\<close> has not run when the retry calls
  \<open>getToken\<close>, which Go permits since nothing orders the two. The claim says the
  invalidation completes before the retry's token fetch, so that the retry uses a fresher
  token. In this run the retry gets the rejected token \<open>T0\<close> from the cache again, is
  rejected again, and the task fails; no invalidation has happened by the end of the task
  (two are started and pending).
\<close>

theorem send_retry_reuses_rejected_token:
 "map_go (\<lambda>(err, st). (err, trace st, map token_key (pending st)))
     (send (world_expiring False) (example_instance ''alice|'' [] []) ''alert'' initial_state)
  = Return (Some ''access_token expired'',
      [Attempt (build_message (example_instance ''alice|'' [] []) example_config ''alert''),
       GotToken ''corp | 1000002'' (Inr ''T0''),
       Request ''T0'' (build_message (example_instance ''alice|'' [] []) example_config ''alert''),
       InvalidateStarted ''corp | 1000002'',
       Attempt (build_message (example_instance ''alice|'' [] []) example_config ''alert''),
       GotToken ''corp | 1000002'' (Inr ''T0''),
       Request ''T0'' (build_message (example_instance ''alice|'' [] []) example_config ''alert''),
       InvalidateStarted ''corp | 1000002''],
      [''corp | 1000002'', ''corp | 1000002''])"
  by code_simp

section \<open>Merging receivers\<close>

lemma Split_append_sep: "Split (a @ sep # b) sep = Split a sep @ Split b sep"
proof (induction a)
  case Nil
  show ?case by simp
next
  case (Cons c a)
  obtain t ts where s: "Split a sep = t # ts"
    using Split_nonempty [of a sep] by (cases "Split a sep") auto
  with Cons show ?case by simp
qed

lemma destinations_Nil: "destinations [] = []"
  by (simp add: destinations_def)

lemma destinations_join:
  "destinations (a @ CHR ''|'' # b) = destinations a @ destinations b"
  by (simp add: destinations_def Split_append_sep)

lemma destinations_TrimPrefix: "destinations (TrimPrefix s ''|'') = destinations s"
  by (cases s) (auto simp: TrimPrefix_def destinations_def)

lemma TrimPrefix_sep: "TrimPrefix (''|'' @ a) ''|'' = a"
  by (simp add: TrimPrefix_def)

lemma TrimPrefix_Nil: "TrimPrefix [] p = []"
  by (simp add: TrimPrefix_def)

lemma merged_first: "merged [] a = a"
  by (simp add: merged_def TrimPrefix_def)

lemma destinations_merged: "destinations (merged old new) = destinations old @ destinations new"
  by (simp add: merged_def destinations_TrimPrefix destinations_join destinations_Nil)

lemma merge_receiver_eq:
  assumes "transport_identity r = Some c" "md5key c = Inr key"
  shows "merge_receiver md5key m (WechatReceiver (Some r)) =
           AList.update key
             ((case map_of m key of None \<Rightarrow> c | Some w' \<Rightarrow> w')
                \<lparr>ToUser := merged (ToUser (case map_of m key of None \<Rightarrow> c | Some w' \<Rightarrow> w')) (ToUser r),
                 ToParty := merged (ToParty (case map_of m key of None \<Rightarrow> c | Some w' \<Rightarrow> w')) (ToParty r),
                 ToTag := merged (ToTag (case map_of m key of None \<Rightarrow> c | Some w' \<Rightarrow> w')) (ToTag r)\<rparr>) m"
  using assms
  by (auto simp: merge_receiver_def transport_identity_def Let_def merged_def
           split: option.splits intro!: arg_cong [where f = "\<lambda>w. AList.update key w m"])

text \<open>
  C3: two receivers with the same transport identity (the same clone once the default URL
  is filled in and the destination fields are cleared) are collapsed by
  \<open>NewWechatNotifier\<close> into exactly one instance, stored under the hash of that identity.
  Each destination field of the instance is the first receiver's field, followed by the
  separator and the second receiver's field if that is not empty, with a leading
  separator stripped; its destinations are those of the first receiver followed by those
  of the second, in order, none dropped and none duplicated.
\<close>

theorem NewWechatNotifier_merges_pair:
  assumes t: "NewTemplate (template_path ncfg) = Inr tmpl"
    and r1: "transport_identity r1 = Some c"
    and r2: "transport_identity r2 = Some c"
    and k: "md5key c = Inr key"
  shows "\<exists>n w. NewWechatNotifier md5key NewTemplate
                  [WechatReceiver (Some r1), WechatReceiver (Some r2)] ncfg = Some n
         \<and> wechat n = [(key, w)]
         \<and> WechatConfig w = WechatConfig c
         \<and> ToUser w = TrimPrefix (ToUser r1 @ (if ToUser r2 = [] then [] else ''|'' @ ToUser r2)) ''|''
         \<and> ToParty w = TrimPrefix (ToParty r1 @ (if ToParty r2 = [] then [] else ''|'' @ ToParty r2)) ''|''
         \<and> ToTag w = TrimPrefix (ToTag r1 @ (if ToTag r2 = [] then [] else ''|'' @ ToTag r2)) ''|''
         \<and> destinations (ToUser w) = destinations (ToUser r1) @ destinations (ToUser r2)
         \<and> destinations (ToParty w) = destinations (ToParty r1) @ destinations (ToParty r2)
         \<and> destinations (ToTag w) = destinations (ToTag r1) @ destinations (ToTag r2)"
proof -
  have c: "ToUser c = []" "ToParty c = []" "ToTag c = []"
    using r1 by (auto simp: transport_identity_def Clone_def split: option.splits)
  let ?w1 = "c\<lparr>ToUser := ToUser r1, ToParty := ToParty r1, ToTag := ToTag r1\<rparr>"
  let ?w2 = "?w1\<lparr>ToUser := merged (ToUser r1) (ToUser r2),
                  ToParty := merged (ToParty r1) (ToParty r2),
                  ToTag := merged (ToTag r1) (ToTag r2)\<rparr>"
  have m1: "merge_receiver md5key [] (WechatReceiver (Some r1)) = [(key, ?w1)]"
    by (simp add: merge_receiver_eq [where md5key = md5key, OF r1 k] c merged_first)
  have m2: "merge_receiver md5key [(key, ?w1)] (WechatReceiver (Some r2)) = [(key, ?w2)]"
    by (simp add: merge_receiver_eq [where md5key = md5key, OF r2 k])
  have n: "wechat (the (NewWechatNotifier md5key NewTemplate
                  [WechatReceiver (Some r1), WechatReceiver (Some r2)] ncfg)) = [(key, ?w2)]"
    "NewWechatNotifier md5key NewTemplate
                  [WechatReceiver (Some r1), WechatReceiver (Some r2)] ncfg \<noteq> None"
    by (simp_all add: NewWechatNotifier_def t Let_def m1 m2)
  have u: "\<And>a b. merged a b = TrimPrefix (a @ (if b = [] then [] else ''|'' @ b)) ''|''"
    by (simp add: merged_def)
  from n obtain n' where n': "NewWechatNotifier md5key NewTemplate
                  [WechatReceiver (Some r1), WechatReceiver (Some r2)] ncfg = Some n'"
    "wechat n' = [(key, ?w2)]" by auto
  show ?thesis
    apply (rule exI [of _ n'], rule exI [of _ ?w2])
    using n' by (simp add: destinations_merged u [symmetric])
qed


theorem NewWechatNotifier_merges_pair_witness:
  "\<exists>n w. NewWechatNotifier (\<lambda>c. Inr ''key'') (\<lambda>path. Inr ())
            [WechatReceiver (Some (example_instance ''a|b'' [] [])),
             WechatReceiver (Some (example_instance ''c'' [] []))] \<lparr>ReceiverOpts = None\<rparr> = Some n
         \<and> wechat n = [(''key'', w)]
         \<and> ToUser w = ''a|b|c''
         \<and> destinations (ToUser w) = [''a'', ''b'', ''c'']"
proof -
  let ?c = "Clone (example_instance [] [] [])"
  have r1: "transport_identity (example_instance ''a|b'' [] []) = Some ?c"
    by (simp add: transport_identity_def example_instance_def example_config_def
          default_api_url_def DefaultApiURL_def Clone_def)
  have r2: "transport_identity (example_instance ''c'' [] []) = Some ?c"
    by (simp add: transport_identity_def example_instance_def example_config_def
          default_api_url_def DefaultApiURL_def Clone_def)
  have d: "destinations ''a|b'' = [''a'', ''b'']" "destinations ''c'' = [''c'']"
    by (simp_all add: destinations_def)
  from NewWechatNotifier_merges_pair
         [where NewTemplate = "\<lambda>path. Inr ()" and ncfg = "\<lparr>ReceiverOpts = None\<rparr>"
            and tmpl = "()" and md5key = "\<lambda>c. Inr ''key''" and key = "''key''",
          OF _ r1 r2] d
  show ?thesis
    by (auto simp: example_instance_def TrimPrefix_def)
qed

section \<open>Errors that are not reported, and shared batches\<close>

lemma sendMessage_other_code:
  assumes "getToken world w cfg (log_event (Attempt m) st) = (Inr token, st1)"
    and "post world (posts st1) token m = Response weResp"
    and "Code weResp \<noteq> 0" "Code weResp \<noteq> AccessTokenInvalid"
  shows "fst (sendMessage world w cfg m st) = (False, None)"
  using assms by (simp add: sendMessage_def Let_def)

text \<open>
  C1, at a failing input: the channel answers the one request of the call with the code
  81013 and the error text "user & party & tag all invalid". The claim says the failure
  appears in the list that \<open>Notify\<close> returns; the source logs it and returns
  \<^verbatim>\<open>false, nil\<close>, so the list is empty. The request is sent once: there is no retry.
\<close>

theorem Notify_other_code_not_reported:
  "errors_and_requests
     (Notify one_chunk (world_answering 81013 ''user & party & tag all invalid'')
        (example_notifier [(''k'', example_instance ''alice'' [] [])]) () initial_state)
   = Some (Return ([],
       [\<lparr>Content = ''alert'', msgToUser = ''alice|'', msgToParty = ''|'', Totag = ''|'',
         msgAgentID = ''1000002'', Safe = ''0'', msgType = ''text''\<rparr>]))"
  by code_simp

text \<open>
  Every task that the loop registers for an instance holds the same pointer: the one
  clone allocated before the loop.
\<close>

lemma batch_step_group:
  assumes "batch_step toUser toParty toTag messages nw us ps ts s = Return (us', ps', ts', s')"
  shows "group s' = group s @ map (\<lambda>m. \<lparr>task_nw = nw, task_msg = m\<rparr>) messages"
proof -
  from assms obtain u p t s1 s2 s3 where
    s1: "store nw (\<lambda>obj. obj\<lparr>ToUser := u\<rparr>) s = Return s1" and
    s2: "store nw (\<lambda>obj. obj\<lparr>ToParty := p\<rparr>) s1 = Return s2" and
    s3: "store nw (\<lambda>obj. obj\<lparr>ToTag := t\<rparr>) s2 = Return s3" and
    s': "s' = foldl (\<lambda>g m. Add \<lparr>task_nw = nw, task_msg = m\<rparr> g) s3 messages"
    by (rule batch_step_ReturnE)
  from s1 have "group s1 = group s" by (auto dest: store_ReturnD)
  moreover from s2 have "group s2 = group s1" by (auto dest: store_ReturnD)
  moreover from s3 have "group s3 = group s2" by (auto dest: store_ReturnD)
  ultimately show ?thesis by (simp add: s' foldl_Add)
qed

lemma batch_loop_tasks:
  assumes run: "batch_loop toUser toParty toTag messages nw us ps ts s = Some r"
  shows "\<forall>s'. r = Return s' \<longrightarrow> (\<exists>tasks. group s' = group s @ tasks \<and> (\<forall>t\<in>set tasks. task_nw t = nw))"
proof (rule batch_loop.raw_induct
    [where P = "\<lambda>toUser toParty toTag messages nw us ps ts s r.
         \<forall>s'. r = Return s' \<longrightarrow>
           (\<exists>tasks. group s' = group s @ tasks \<and> (\<forall>t\<in>set tasks. task_nw t = nw))", OF _ run])
  fix loop :: "string list \<Rightarrow> string list \<Rightarrow> string list \<Rightarrow> string list \<Rightarrow> addr \<Rightarrow>
               int \<Rightarrow> int \<Rightarrow> int \<Rightarrow> NotifyState \<Rightarrow> NotifyState go option"
  fix toUser toParty toTag messages :: "string list" and nw :: addr
    and us ps ts :: int and s :: NotifyState and r :: "NotifyState go"
  assume IH: "\<And>toUser toParty toTag messages nw us ps ts s r.
        loop toUser toParty toTag messages nw us ps ts s = Some r \<Longrightarrow>
        \<forall>s'. r = Return s' \<longrightarrow>
           (\<exists>tasks. group s' = group s @ tasks \<and> (\<forall>t\<in>set tasks. task_nw t = nw))"
  assume eq: "(if int (length toUser) \<le> us \<and> int (length toParty) \<le> ps \<and> int (length toTag) \<le> ts
      then Some (Return s)
      else case batch_step toUser toParty toTag messages nw us ps ts s of
             Panic \<Rightarrow> Some Panic
           | Return (us', ps', ts', s') \<Rightarrow> loop toUser toParty toTag messages nw us' ps' ts' s')
     = Some r"
  show "\<forall>s'. r = Return s' \<longrightarrow>
           (\<exists>tasks. group s' = group s @ tasks \<and> (\<forall>t\<in>set tasks. task_nw t = nw))"
  proof (intro allI impI)
    fix s'
    assume r: "r = Return s'"
    show "\<exists>tasks. group s' = group s @ tasks \<and> (\<forall>t\<in>set tasks. task_nw t = nw)"
    proof (cases "int (length toUser) \<le> us \<and> int (length toParty) \<le> ps \<and> int (length toTag) \<le> ts")
      case True
      with eq r have "s' = s" by simp
      then have "group s' = group s @ [] \<and> (\<forall>t\<in>set []. task_nw t = nw)" by simp
      then show ?thesis by (rule exI)
    next
      case False
      with eq have e: "(case batch_step toUser toParty toTag messages nw us ps ts s of
               Panic \<Rightarrow> Some Panic
             | Return (us', ps', ts', s') \<Rightarrow> loop toUser toParty toTag messages nw us' ps' ts' s')
            = Some r"
        by (simp only: if_False)
      show ?thesis
      proof (cases "batch_step toUser toParty toTag messages nw us ps ts s")
        case Panic
        with e r show ?thesis by simp
      next
        case (Return q)
        obtain us' ps' ts' s1 where q: "q = (us', ps', ts', s1)" by (cases q)
        from e Return q have rec: "loop toUser toParty toTag messages nw us' ps' ts' s1 = Some r"
          by simp
        have "batch_step toUser toParty toTag messages nw us ps ts s = Return (us', ps', ts', s1)"
          using Return q by simp
        then have g1: "group s1 = group s @ map (\<lambda>m. \<lparr>task_nw = nw, task_msg = m\<rparr>) messages"
          by (rule batch_step_group)
        from IH [OF rec] r obtain tasks where
          g: "group s' = group s1 @ tasks" and t: "\<forall>t\<in>set tasks. task_nw t = nw"
          by blast
        have "group s' = group s @ (map (\<lambda>m. \<lparr>task_nw = nw, task_msg = m\<rparr>) messages @ tasks)
              \<and> (\<forall>t\<in>set (map (\<lambda>m. \<lparr>task_nw = nw, task_msg = m\<rparr>) messages @ tasks). task_nw t = nw)"
          using g g1 t by auto
        then show ?thesis by (rule exI)
      qed
    qed
  qed
qed

lemma notify_instance_tasks_share_clone:
  assumes "notify_instance messages w s = Some (Return s')"
  shows "\<exists>tasks. group s' = group s @ tasks \<and> (\<forall>t\<in>set tasks. task_nw t = next_addr s)"
proof -
  let ?s1 = "s\<lparr>heap := (heap s)(next_addr s \<mapsto> Clone w), next_addr := Suc (next_addr s)\<rparr>"
  from assms have "batch_loop (Split (ToUser w) (CHR ''|'')) (Split (ToParty w) (CHR ''|''))
        (Split (ToTag w) (CHR ''|'')) messages (next_addr s) 0 0 0 ?s1 = Some (Return s')"
    by (simp add: notify_instance_def Let_def)
  from batch_loop_tasks [OF this] show ?thesis by simp
qed

text \<open>
  C2, at a failing input: an instance with the user \<open>u\<close>, the party \<open>p\<close> and 101 tags,
  a hundred times \<open>a\<close> and then \<open>b\<close>, and one message chunk. The loop makes two passes and
  registers two tasks; the claim says their requests carry the first batch
  (\<open>u\<close>, \<open>p\<close>, the hundred \<open>a\<close>) and the second (the tag \<open>b\<close>). Both tasks hold the one
  clone \<open>nw\<close> that the passes overwrite, so both requests carry what the last pass left
  there: no user, no party and the tag \<open>b\<close>.
\<close>

theorem Notify_batches_share_clone:
  "errors_and_requests
     (Notify one_chunk (world_answering 0 ''ok'')
        (example_notifier
           [(''k'', example_instance ''u'' ''p'' (concat (replicate 100 ''a|'') @ ''b''))])
        () initial_state)
   = Some (Return ([],
       [\<lparr>Content = ''alert'', msgToUser = [], msgToParty = [], Totag = ''b|'',
         msgAgentID = ''1000002'', Safe = ''0'', msgType = ''text''\<rparr>,
        \<lparr>Content = ''alert'', msgToUser = [], msgToParty = [], Totag = ''b|'',
         msgAgentID = ''1000002'', Safe = ''0'', msgType = ''text''\<rparr>]))"
  by code_simp

lemma Notify_ignores_messageMaxSize:
  "Notify tsplit world (n\<lparr>messageMaxSize := k\<rparr>) data st = Notify tsplit world n data st"
  by (simp add: Notify_def cong: sum.case_cong)

text \<open>
  C5, at a failing input: the notifier is constructed with the option
  \<^verbatim>\<open>MessageMaxSize\<close> 4096 and stores it in \<open>messageMaxSize\<close>; the claim says that 4096 is
  the bound passed to the splitter. \<open>Notify\<close> passes the constant 2048: the chunk that the
  bound-reporting splitter produces, and that is sent, says so.
\<close>

theorem Notify_splits_at_default_bound:
  "(case NewWechatNotifier (\<lambda>c. Inr ''key'') (\<lambda>path. Inr ())
           [WechatReceiver (Some (example_instance ''alice'' [] []))] options_with_max_size of
      None \<Rightarrow> None
    | Some n \<Rightarrow>
        Some (messageMaxSize n,
              map_option (map_go (\<lambda>(errs, st). map Content (requests (trace st))))
                (Notify bound_reporting_split (world_answering 0 ''ok'') n () initial_state)))
   = Some (4096, Some (Return [''bound 2048'']))"
  by code_simp

text \<open>
  C6, at a failing input: the template cannot be rendered. No send is attempted (the run
  state is unchanged), as the claim says; but the claim also says that the returned list
  is not empty and contains the template error, and \<open>Notify\<close> returns \<^verbatim>\<open>nil\<close>.
\<close>

theorem Notify_swallows_split_error:
  "Notify failing_split (world_answering 0 ''ok'')
     (example_notifier [(''k'', example_instance ''alice'' [] [])]) () initial_state
   = Some (Return ([], initial_state))"
  by (simp add: Notify_def failing_split_def)

end
